theory Spec2Isabelle
  imports Main "HOL-Library.Word" "HOL-Library.Sublist"
begin

unbundle bit_operations_syntax

section \<open>The configuration record (EEPROM) reader of init.c\<close>

subsection \<open>Bytes and the record layout\<close>

type_synonym u8 = "8 word"
type_synonym u16 = "16 word"
type_synonym u32 = "32 word"

text \<open>
  The three packed structs of init.c. The target is a little-endian ARM, so a multi-byte
  field is read from memory least significant byte first.
\<close>

record EEPROM_Header =
  magic_number :: u32
  checksum :: u32
  data_length :: u16
  data_version :: u8

record EEPROM_DataV1 =
  production_date :: u32
  uid :: "u8 list"
  hostname :: "u8 list"
  encrypted_password :: "u8 list"
  ethernet_config :: "u8 list"

record EEPROM =
  header :: EEPROM_Header
  data_v1 :: EEPROM_DataV1

definition EEPROM_MAGIC_NUMBER :: u32 where
  "EEPROM_MAGIC_NUMBER = 0x21474E54"

definition ETHERNET_CONFIG_LENGTH :: nat where
  "ETHERNET_CONFIG_LENGTH = 256"

text \<open>\<open>sizeof(EEPROM_Header)\<close>, \<open>sizeof(EEPROM_DataV1)\<close> and \<open>sizeof(EEPROM)\<close>.\<close>

definition sizeof_header :: nat where
  "sizeof_header = 4 + 4 + 2 + 1"

definition sizeof_data_v1 :: nat where
  "sizeof_data_v1 = 4 + 7 + 65 + 107 + ETHERNET_CONFIG_LENGTH"

definition sizeof_eeprom :: nat where
  "sizeof_eeprom = sizeof_header + sizeof_data_v1"

text \<open>Little-endian reads of a 16-bit and a 32-bit field at an offset of a byte array.\<close>

definition le16 :: "u8 list \<Rightarrow> nat \<Rightarrow> u16" where
  "le16 bs i = ucast (bs ! i) OR push_bit 8 (ucast (bs ! (i + 1)))"

definition le32 :: "u8 list \<Rightarrow> nat \<Rightarrow> u32" where
  "le32 bs i = ucast (bs ! i) OR push_bit 8 (ucast (bs ! (i + 1)))
     OR push_bit 16 (ucast (bs ! (i + 2))) OR push_bit 24 (ucast (bs ! (i + 3)))"

definition field :: "u8 list \<Rightarrow> nat \<Rightarrow> nat \<Rightarrow> u8 list" where
  "field bs off n = take n (drop off bs)"

text \<open>
  The union \<open>u\<close> of \<open>read_eeprom\<close> overlays the struct on \<open>bytes[sizeof(EEPROM)]\<close>;
  these functions read the struct's fields out of the byte array (always of length
  \<open>sizeof_eeprom\<close> here).
\<close>

definition header_of :: "u8 list \<Rightarrow> EEPROM_Header" where
  "header_of bs = \<lparr>magic_number = le32 bs 0, checksum = le32 bs 4,
     data_length = le16 bs 8, data_version = bs ! 10\<rparr>"

definition data_v1_of :: "u8 list \<Rightarrow> EEPROM_DataV1" where
  "data_v1_of bs = \<lparr>production_date = le32 bs 11, uid = field bs 15 7,
     hostname = field bs 22 65, encrypted_password = field bs 87 107,
     ethernet_config = field bs 194 ETHERNET_CONFIG_LENGTH\<rparr>"

definition eeprom_of :: "u8 list \<Rightarrow> EEPROM" where
  "eeprom_of bs = \<lparr>header = header_of bs, data_v1 = data_v1_of bs\<rparr>"

subsection \<open>zlib's crc32\<close>

text \<open>
  \<open>crc32(crc, buf, len)\<close> of zlib (an external library): the reflected CRC-32 with
  polynomial \<open>0xEDB88320\<close>, the running value complemented on entry and on exit.
  \<open>crc32(0, Z_NULL, 0)\<close> is the initial value 0.
\<close>

definition crc32_bit :: "u32 \<Rightarrow> u32" where
  "crc32_bit c = (if bit c 0 then drop_bit 1 c XOR 0xEDB88320 else drop_bit 1 c)"

definition crc32_byte :: "u8 \<Rightarrow> u32 \<Rightarrow> u32" where
  "crc32_byte b c = (crc32_bit ^^ 8) (c XOR ucast b)"

definition crc32 :: "u32 \<Rightarrow> u8 list \<Rightarrow> u32" where
  "crc32 crc buf = NOT (fold crc32_byte buf (NOT crc))"

definition crc32_init :: u32 where
  "crc32_init = 0"

subsection \<open>The I2C bus\<close>

text \<open>
  What the bus answers: whether \<open>open\<close>, the \<open>I2C_SLAVE\<close> ioctl and \<open>i2c_write16\<close>
  succeed, and the outcome of the n-th \<open>i2c_read8\<close> after the read address was set to
  zero (\<open>None\<close> when the ioctl fails). The device increments its address after every read,
  and both loops of \<open>read_eeprom\<close> do one read per address, so the loop variable
  \<open>address\<close> is also the number of the read.
\<close>

record i2c_bus =
  open_ok :: bool
  slave_ok :: bool
  write16_ok :: bool
  i2c_read8 :: "nat \<Rightarrow> u8 option"

text \<open>The two globals \<open>eeprom\<close> and \<open>eeprom_valid\<close>.\<close>

record globals =
  eeprom :: EEPROM
  eeprom_valid :: bool

subsection \<open>read_eeprom\<close>

text \<open>
  The header loop: \<open>for (address = 0; address < sizeof(u.eeprom.header); ++address)\<close>,
  storing each byte in \<open>u.bytes[address]\<close>; \<open>None\<close> is the early return on a failed read.
\<close>

function read_header :: "i2c_bus \<Rightarrow> nat \<Rightarrow> u8 list \<Rightarrow> u8 list option" where
  "read_header bus address u =
     (if address < sizeof_header then
        (case i2c_read8 bus address of
           None \<Rightarrow> None
         | Some byte \<Rightarrow> read_header bus (address + 1) (u[address := byte]))
      else Some u)"
  by pat_completeness auto
termination
  by (relation "measure (\<lambda>(bus, address, u). sizeof_header - address)") auto

text \<open>
  The data loop: one byte per iteration, stored only while \<open>address < sizeof(u.eeprom)\<close>
  (otherwise it stays in the local \<open>byte\<close>), and always added to the checksum.
\<close>

function read_data :: "i2c_bus \<Rightarrow> nat \<Rightarrow> nat \<Rightarrow> u8 list \<Rightarrow> u32 \<Rightarrow> (u8 list \<times> u32) option" where
  "read_data bus len address u chk =
     (if address < sizeof_header + len then
        (case i2c_read8 bus address of
           None \<Rightarrow> None
         | Some byte \<Rightarrow>
             read_data bus len (address + 1)
               (if address < sizeof_eeprom then u[address := byte] else u)
               (crc32 chk [byte]))
      else Some (u, chk))"
  by pat_completeness auto
termination
  by (relation "measure (\<lambda>(bus, len, address, u, chk). sizeof_header + len - address)") auto

text \<open>
  \<open>read_eeprom\<close>. The argument \<open>u0\<close> is what the uninitialised local union \<open>u\<close> holds
  on entry (\<open>sizeof_eeprom\<close> bytes of stack). Every early return leaves
  \<open>eeprom_valid = false\<close> and the global \<open>eeprom\<close> as it was.
\<close>

definition read_eeprom :: "i2c_bus \<Rightarrow> u8 list \<Rightarrow> globals \<Rightarrow> globals" where
  "read_eeprom bus u0 g =
     (let g = g\<lparr>eeprom_valid := False\<rparr> in
      if \<not> open_ok bus then g
      else if \<not> slave_ok bus then g
      else if \<not> write16_ok bus then g
      else case read_header bus 0 u0 of
        None \<Rightarrow> g
      | Some u \<Rightarrow>
          if magic_number (header_of u) \<noteq> EEPROM_MAGIC_NUMBER then g
          else
            let chk = crc32_init;
                chk = crc32 chk [u ! 8, u ! 9];
                chk = crc32 chk [u ! 10]
            in case read_data bus (unat (data_length (header_of u))) sizeof_header u chk of
              None \<Rightarrow> g
            | Some (u, chk) \<Rightarrow>
                if checksum (header_of u) \<noteq> chk then g
                else if data_version (header_of u) < 1 then g
                else if data_version (header_of u) = 1
                        \<and> unat (data_length (header_of u)) < sizeof_data_v1 then g
                else if uid (data_v1_of u) ! (7 - 1) \<noteq> 0 then g
                else if hostname (data_v1_of u) ! (65 - 1) \<noteq> 0 then g
                else if encrypted_password (data_v1_of u) ! (107 - 1) \<noteq> 0 then g
                else g\<lparr>eeprom := eeprom_of u\<rparr>\<lparr>eeprom_valid := True\<rparr>)"

text \<open>
  For stating what was read: the bytes answered by the reads \<open>a, ..., b - 1\<close>, and the
  array \<open>u\<close> after those of them that fall inside it were stored at their addresses.
\<close>

definition bytes_read :: "i2c_bus \<Rightarrow> nat \<Rightarrow> nat \<Rightarrow> u8 list" where
  "bytes_read bus a b = map (\<lambda>i. the (i2c_read8 bus i)) [a..<b]"

definition overlay :: "i2c_bus \<Rightarrow> nat \<Rightarrow> nat \<Rightarrow> u8 list \<Rightarrow> u8 list" where
  "overlay bus a b u =
     map (\<lambda>i. if a \<le> i \<and> i < b then the (i2c_read8 bus i) else u ! i) [0..<length u]"

text \<open>
  The union \<open>u\<close> once both loops have run to their end: the header and the payload
  bytes at their addresses as far as they fit, the rest as it was on entry.
\<close>

definition record_image :: "i2c_bus \<Rightarrow> u8 list \<Rightarrow> u8 list" where
  "record_image bus u0 =
     overlay bus 0 (min (sizeof_header + unat (le16 (bytes_read bus 8 10) 0)) sizeof_eeprom) u0"

text \<open>Example devices: a bus on which every call succeeds and that answers the given bytes,
  then zeros.\<close>

definition bus_of :: "u8 list \<Rightarrow> i2c_bus" where
  "bus_of bs = \<lparr>open_ok = True, slave_ok = True, write16_ok = True,
     i2c_read8 = (\<lambda>n. Some (if n < length bs then bs ! n else 0))\<rparr>"

text \<open>Two possible contents of the stack where \<open>u\<close> lives: all zero, all \<open>'A'\<close>.\<close>

definition stack_zero :: "u8 list" where
  "stack_zero = replicate sizeof_eeprom 0"

definition stack_A :: "u8 list" where
  "stack_A = replicate sizeof_eeprom 0x41"

definition zero_eeprom :: EEPROM where
  "zero_eeprom = eeprom_of (replicate sizeof_eeprom 0)"

definition g0 :: globals where
  "g0 = \<lparr>eeprom = zero_eeprom, eeprom_valid = False\<rparr>"

text \<open>A version-1 record with an all-zero payload of 439 bytes (length \<open>0x01B7\<close>).\<close>

definition v1_header :: "u8 list" where
  "v1_header = [0x54, 0x4E, 0x47, 0x21, 0x4B, 0xFF, 0xA6, 0x35, 0xB7, 0x01, 0x01]"

text \<open>A version-2 header announcing an empty payload.\<close>

definition v2_header :: "u8 list" where
  "v2_header = [0x54, 0x4E, 0x47, 0x21, 0x3E, 0xB8, 0x4F, 0x11, 0x00, 0x00, 0x02]"

text \<open>A version-2 and a version-1 header that each announce a payload of 183 bytes (length
  \<open>0x00B7\<close>): it ends with the last byte of \<open>encrypted_password\<close> and leaves out all of
  \<open>ethernet_config\<close>. The checksums are those of a payload of zeros.\<close>

definition v2_short_header :: "u8 list" where
  "v2_short_header = [0x54, 0x4E, 0x47, 0x21, 0xA1, 0x34, 0xAE, 0x2D, 0xB7, 0x00, 0x02]"

definition v1_short_header :: "u8 list" where
  "v1_short_header = [0x54, 0x4E, 0x47, 0x21, 0x6F, 0xA7, 0xF2, 0xE8, 0xB7, 0x00, 0x01]"

section \<open>Files: update_file and replace_password\<close>

subsection \<open>The file system and its system calls\<close>

text \<open>
  A regular file: permission bits, owner, group and content. The file system maps a path to
  the regular file there, if any; a path that holds something else (a directory, a device)
  is like a missing one here, and calls on it fail through the script below. A file
  descriptor is modelled by the path it was opened on; no path is renamed while a
  descriptor on it is open.
\<close>

record inode =
  i_perm :: nat
  i_uid :: nat
  i_gid :: nat
  i_data :: string

record stat =
  st_mode :: nat
  st_uid :: nat
  st_gid :: nat
  st_size :: nat

definition S_IFREG :: nat where "S_IFREG = 8 * 8 ^ 4"

definition stat_of :: "inode \<Rightarrow> stat" where
  "stat_of f = \<lparr>st_mode = S_IFREG + i_perm f, st_uid = i_uid f, st_gid = i_gid f,
     st_size = length (i_data f)\<rparr>"

text \<open>
  What the kernel answers to a call is not decided by the program. The world carries a
  script: the answers to the calls to come, one per call whose result the program tests, in
  order (\<open>Succeed\<close> once the script is used up). \<open>Fail e\<close> is an error return with
  \<open>errno = e\<close>; \<open>Partial k\<close> cuts a \<open>read\<close> or \<open>write\<close> short after \<open>k\<close> bytes and
  counts as \<open>Succeed\<close> for every other call. The trace records every call made with the
  answer it got; the call of the library's \<open>crypt_r\<close> is recorded too, with its salt in the
  place of the path.
\<close>

datatype io = Succeed | Fail nat | Partial nat

datatype syscall =
  Stat | Open | Fstat | Malloc | Read | Creat | Fchown | Fchmod | Write | Fsync | Rename | Crypt

record world =
  files :: "string \<Rightarrow> inode option"
  script :: "io list"
  trace :: "(syscall \<times> string \<times> io) list"

definition ENOENT :: nat where "ENOENT = 2"
definition EBADF :: nat where "EBADF = 9"

text \<open>The permission bits of a mode (\<open>mode & 07777\<close>).\<close>

definition perm_bits :: "nat \<Rightarrow> nat" where
  "perm_bits mode = mode mod 8 ^ 4"

text \<open>The octal literal \<open>0444\<close>.\<close>

definition mode_0444 :: nat where
  "mode_0444 = 4 * 8 ^ 2 + 4 * 8 + 4"

definition next_io :: "world \<Rightarrow> io \<times> world" where
  "next_io w = (case script w of [] \<Rightarrow> (Succeed, w) | r # rs \<Rightarrow> (r, w\<lparr>script := rs\<rparr>))"

definition log_call :: "syscall \<Rightarrow> string \<Rightarrow> io \<Rightarrow> world \<Rightarrow> world" where
  "log_call c p r w = w\<lparr>trace := trace w @ [(c, p, r)]\<rparr>"

text \<open>
  A call on a path or descriptor that reads the file there: it fails as scripted, or with
  the given \<open>errno\<close> when there is no file, and otherwise answers with \<open>f\<close> of the file.
\<close>

definition sys_lookup :: "syscall \<Rightarrow> nat \<Rightarrow> (inode \<Rightarrow> 'a) \<Rightarrow> string \<Rightarrow> world \<Rightarrow> (nat + 'a) \<times> world" where
  "sys_lookup c missing f p w =
     (case next_io w of (r, w) \<Rightarrow>
        (case r of
           Fail e \<Rightarrow> (Inl e, log_call c p (Fail e) w)
         | _ \<Rightarrow>
            (case files w p of
               None \<Rightarrow> (Inl missing, log_call c p (Fail missing) w)
             | Some i \<Rightarrow> (Inr (f i), log_call c p Succeed w))))"

definition sys_stat :: "string \<Rightarrow> world \<Rightarrow> (nat + stat) \<times> world" where
  "sys_stat = sys_lookup Stat ENOENT stat_of"

definition sys_fstat :: "string \<Rightarrow> world \<Rightarrow> (nat + stat) \<times> world" where
  "sys_fstat = sys_lookup Fstat EBADF stat_of"

text \<open>\<open>open(path, O_RDONLY)\<close>; the descriptor is the path.\<close>

definition sys_open :: "string \<Rightarrow> world \<Rightarrow> (nat + string) \<times> world" where
  "sys_open p = sys_lookup Open ENOENT (\<lambda>i. p) p"

definition sys_malloc :: "nat \<Rightarrow> world \<Rightarrow> (nat + unit) \<times> world" where
  "sys_malloc n w =
     (case next_io w of (r, w) \<Rightarrow>
        (case r of
           Fail e \<Rightarrow> (Inl e, log_call Malloc [] (Fail e) w)
         | _ \<Rightarrow> (Inr (), log_call Malloc [] Succeed w)))"

text \<open>
  \<open>read(fd, buffer, count)\<close> on a descriptor at offset 0: the bytes read, all \<open>count\<close> of
  them (or what the file has) unless the read is cut short.
\<close>

definition sys_read :: "string \<Rightarrow> nat \<Rightarrow> world \<Rightarrow> (nat + string) \<times> world" where
  "sys_read fd count w =
     (case next_io w of (r, w) \<Rightarrow>
        (case files w fd of
           None \<Rightarrow> (Inl EBADF, log_call Read fd (Fail EBADF) w)
         | Some i \<Rightarrow>
            (case r of
               Fail e \<Rightarrow> (Inl e, log_call Read fd (Fail e) w)
             | Partial k \<Rightarrow>
                 if k < count then (Inr (take k (i_data i)), log_call Read fd (Partial k) w)
                 else (Inr (take count (i_data i)), log_call Read fd Succeed w)
             | Succeed \<Rightarrow> (Inr (take count (i_data i)), log_call Read fd Succeed w))))"

text \<open>
  \<open>open(path, O_CREAT | O_TRUNC | O_WRONLY, mode)\<close>: an existing file is emptied and keeps
  its permissions and owner; a new one is empty, owned by root (the only user at this point
  of the boot) and has the permission bits asked for.
\<close>

definition sys_creat :: "string \<Rightarrow> nat \<Rightarrow> world \<Rightarrow> (nat + string) \<times> world" where
  "sys_creat p mode w =
     (case next_io w of (r, w) \<Rightarrow>
        (case r of
           Fail e \<Rightarrow> (Inl e, log_call Creat p (Fail e) w)
         | _ \<Rightarrow>
            let i = (case files w p of
                       None \<Rightarrow> \<lparr>i_perm = perm_bits mode, i_uid = 0, i_gid = 0, i_data = []\<rparr>
                     | Some i \<Rightarrow> i\<lparr>i_data := []\<rparr>)
            in (Inr p, log_call Creat p Succeed (w\<lparr>files := (files w)(p \<mapsto> i)\<rparr>))))"

text \<open>A call that changes the file behind a descriptor by \<open>f\<close>.\<close>

definition sys_modify :: "syscall \<Rightarrow> (inode \<Rightarrow> inode) \<Rightarrow> string \<Rightarrow> world \<Rightarrow> (nat + unit) \<times> world" where
  "sys_modify c f fd w =
     (case next_io w of (r, w) \<Rightarrow>
        (case r of
           Fail e \<Rightarrow> (Inl e, log_call c fd (Fail e) w)
         | _ \<Rightarrow>
            (case files w fd of
               None \<Rightarrow> (Inl EBADF, log_call c fd (Fail EBADF) w)
             | Some i \<Rightarrow> (Inr (), log_call c fd Succeed (w\<lparr>files := (files w)(fd \<mapsto> f i)\<rparr>)))))"

definition sys_fchown :: "string \<Rightarrow> nat \<Rightarrow> nat \<Rightarrow> world \<Rightarrow> (nat + unit) \<times> world" where
  "sys_fchown fd new_uid new_gid = sys_modify Fchown (\<lambda>i. i\<lparr>i_uid := new_uid, i_gid := new_gid\<rparr>) fd"

text \<open>\<open>fchmod\<close> sets the permission bits and ignores the type bits of its argument.\<close>

definition sys_fchmod :: "string \<Rightarrow> nat \<Rightarrow> world \<Rightarrow> (nat + unit) \<times> world" where
  "sys_fchmod fd mode = sys_modify Fchmod (\<lambda>i. i\<lparr>i_perm := perm_bits mode\<rparr>) fd"

text \<open>
  \<open>write(fd, buffer, count)\<close> on a descriptor at the end of the file: the number of bytes
  written, which are appended to the file.
\<close>

definition sys_write :: "string \<Rightarrow> string \<Rightarrow> world \<Rightarrow> (nat + nat) \<times> world" where
  "sys_write fd buffer w =
     (case next_io w of (r, w) \<Rightarrow>
        (case files w fd of
           None \<Rightarrow> (Inl EBADF, log_call Write fd (Fail EBADF) w)
         | Some i \<Rightarrow>
            (case r of
               Fail e \<Rightarrow> (Inl e, log_call Write fd (Fail e) w)
             | Partial k \<Rightarrow>
                 if k < length buffer
                 then (Inr k, log_call Write fd (Partial k)
                         (w\<lparr>files := (files w)(fd \<mapsto> i\<lparr>i_data := i_data i @ take k buffer\<rparr>)\<rparr>))
                 else (Inr (length buffer), log_call Write fd Succeed
                         (w\<lparr>files := (files w)(fd \<mapsto> i\<lparr>i_data := i_data i @ buffer\<rparr>)\<rparr>))
             | Succeed \<Rightarrow>
                 (Inr (length buffer), log_call Write fd Succeed
                    (w\<lparr>files := (files w)(fd \<mapsto> i\<lparr>i_data := i_data i @ buffer\<rparr>)\<rparr>)))))"

text \<open>\<open>fsync\<close>: its result is never tested, so it takes no answer from the script.\<close>

definition sys_fsync :: "string \<Rightarrow> world \<Rightarrow> world" where
  "sys_fsync fd w = log_call Fsync fd Succeed w"

text \<open>\<open>rename\<close>: the file moves to the new path and replaces what was there; renaming a
  file to itself changes nothing.\<close>

definition sys_rename :: "string \<Rightarrow> string \<Rightarrow> world \<Rightarrow> (nat + unit) \<times> world" where
  "sys_rename src dst w =
     (case next_io w of (r, w) \<Rightarrow>
        (case r of
           Fail e \<Rightarrow> (Inl e, log_call Rename src (Fail e) w)
         | _ \<Rightarrow>
            (case files w src of
               None \<Rightarrow> (Inl ENOENT, log_call Rename src (Fail ENOENT) w)
             | Some i \<Rightarrow>
                 (Inr (), log_call Rename src Succeed
                    (if src = dst then w
                     else w\<lparr>files := (files w)(dst \<mapsto> i, src := None)\<rparr>)))))"

subsection \<open>panic, create_file, robust_write\<close>

text \<open>
  \<open>panic\<close> never returns: it waits, asks for a reboot and sleeps for ever. A function
  that can panic answers \<open>Panic\<close> with the message, or \<open>Return\<close> with its value.
  \<open>Overrun\<close> is a store outside a local array, after which C says nothing.
\<close>

datatype 'a result = Return 'a | Panic string | Overrun string

definition create_file :: "string \<Rightarrow> nat \<Rightarrow> nat \<Rightarrow> nat \<Rightarrow> world \<Rightarrow> string result \<times> world" where
  "create_file path new_uid new_gid mode w =
     (case sys_creat path mode w of
        (Inl e, w) \<Rightarrow> (Panic (''could not create '' @ path @ '' for writing''), w)
      | (Inr fd, w) \<Rightarrow>
         (case sys_fchown fd new_uid new_gid w of
            (Inl e, w) \<Rightarrow> (Panic (''could not change owner of '' @ path), w)
          | (Inr _, w) \<Rightarrow>
             (case sys_fchmod fd mode w of
                (Inl e, w) \<Rightarrow> (Panic (''could not change mode of '' @ path), w)
              | (Inr _, w) \<Rightarrow> (Return fd, w))))"

definition robust_write :: "string \<Rightarrow> string \<Rightarrow> string \<Rightarrow> world \<Rightarrow> unit result \<times> world" where
  "robust_write path fd buffer w =
     (case sys_write fd buffer w of
        (Inl e, w) \<Rightarrow> (Panic (''could not write to '' @ path), w)
      | (Inr n, w) \<Rightarrow>
          if n < length buffer then (Panic (''short write to '' @ path), w)
          else (Return (), w))"

subsection \<open>update_file\<close>

text \<open>
  The part of \<open>update_file\<close> after the label \<open>update\<close>. \<open>tmp_path\<close> is a buffer of 256
  bytes filled by \<open>snprintf\<close>, which keeps at most 255 characters.
\<close>

definition update :: "string \<Rightarrow> string \<Rightarrow> world \<Rightarrow> unit result \<times> world" where
  "update path content w =
     (let tmp_path = take 255 (path @ ''.tmp'') in
      case create_file tmp_path 0 0 mode_0444 w of
        (Panic m, w) \<Rightarrow> (Panic m, w)
      | (Overrun m, w) \<Rightarrow> (Overrun m, w)
      | (Return fd, w) \<Rightarrow>
         (case robust_write tmp_path fd content w of
            (Panic m, w) \<Rightarrow> (Panic m, w)
          | (Overrun m, w) \<Rightarrow> (Overrun m, w)
          | (Return _, w) \<Rightarrow>
             (let w = sys_fsync fd w in
              case sys_rename tmp_path path w of
                (Inl e, w) \<Rightarrow> (Panic (''could not rename '' @ tmp_path @ '' to '' @ path), w)
              | (Inr _, w) \<Rightarrow> (Return (), w))))"

text \<open>
  \<open>update_file\<close>: every \<open>goto update\<close> is a call of \<open>update\<close>; the only other way out is
  the \<open>return\<close> when the file is already up to date.
\<close>

definition update_file :: "string \<Rightarrow> string \<Rightarrow> world \<Rightarrow> unit result \<times> world" where
  "update_file path content w =
     (case sys_stat path w of
        (Inl e, w) \<Rightarrow> update path content w
      | (Inr st, w) \<Rightarrow>
          if st_mode st \<noteq> S_IFREG + mode_0444 \<or> st_uid st \<noteq> 0 \<or> st_gid st \<noteq> 0
             \<or> st_size st \<noteq> length content
          then update path content w
          else
            (case sys_open path w of
               (Inl e, w) \<Rightarrow> update path content w
             | (Inr fd, w) \<Rightarrow>
                (case sys_read fd (st_size st) w of
                   (Inl e, w) \<Rightarrow> update path content w
                 | (Inr buffer, w) \<Rightarrow>
                     if length buffer < st_size st then update path content w
                     else if take (length content) buffer = content then (Return (), w)
                     else update path content w)))"

subsection \<open>C strings\<close>

text \<open>
  \<open>buffer\<close> holds the bytes of the file followed by a null byte. A pointer into it is an
  index; the string at a pointer runs up to the first null byte.
\<close>

definition NUL :: char where
  "NUL = CHR 0x00"

definition cstr :: "string \<Rightarrow> string" where
  "cstr s = takeWhile (\<lambda>c. c \<noteq> NUL) s"

definition char_at :: "string \<Rightarrow> nat \<Rightarrow> char" where
  "char_at buffer p = (if p < length buffer then buffer ! p else NUL)"

fun strchr_idx :: "string \<Rightarrow> char \<Rightarrow> nat option" where
  "strchr_idx [] c = None"
| "strchr_idx (x # xs) c = (if x = c then Some 0 else map_option Suc (strchr_idx xs c))"

fun strrchr_idx :: "string \<Rightarrow> char \<Rightarrow> nat option" where
  "strrchr_idx [] c = None"
| "strrchr_idx (x # xs) c =
     (case strrchr_idx xs c of
        Some i \<Rightarrow> Some (Suc i)
      | None \<Rightarrow> if x = c then Some 0 else None)"

fun strstr_idx :: "string \<Rightarrow> string \<Rightarrow> nat option" where
  "strstr_idx [] needle = (if needle = [] then Some 0 else None)"
| "strstr_idx (x # xs) needle =
     (if take (length needle) (x # xs) = needle then Some 0
      else map_option Suc (strstr_idx xs needle))"

text \<open>\<open>strncmp(p, lit, strlen(lit)) == 0\<close>, \<open>strstr(p, needle)\<close> and \<open>strchr(p, c)\<close> for a
  pointer \<open>p\<close> into \<open>buffer\<close>; the last two answer a pointer or \<open>NULL\<close>.\<close>

definition strncmp_eq :: "string \<Rightarrow> nat \<Rightarrow> string \<Rightarrow> bool" where
  "strncmp_eq buffer p lit = (take (length lit) (cstr (drop p buffer)) = lit)"

definition strstr :: "string \<Rightarrow> nat \<Rightarrow> string \<Rightarrow> nat option" where
  "strstr buffer p needle = map_option (\<lambda>i. p + i) (strstr_idx (cstr (drop p buffer)) needle)"

definition strchr :: "string \<Rightarrow> nat \<Rightarrow> char \<Rightarrow> nat option" where
  "strchr buffer p c = map_option (\<lambda>i. p + i) (strchr_idx (cstr (drop p buffer)) c)"

text \<open>The C string in a field of the record, as characters.\<close>

definition field_string :: "u8 list \<Rightarrow> string" where
  "field_string bs = map (\<lambda>b. char_of (unat b)) (takeWhile (\<lambda>b. b \<noteq> 0) bs)"

subsection \<open>replace_password\<close>

definition ACCOUNT_NAME :: string where "ACCOUNT_NAME = ''tng''"
definition DEFAULT_PASSWORD :: string where "DEFAULT_PASSWORD = ''default-tng-password''"
definition SHADOW_PATH :: string where "SHADOW_PATH = ''/mnt/etc/shadow''"
definition SHADOW_BACKUP_PATH :: string where "SHADOW_BACKUP_PATH = SHADOW_PATH @ ''-''"
definition SHADOW_TMP_PATH :: string where "SHADOW_TMP_PATH = SHADOW_PATH @ ''+''"
definition SHADOW_BUFFER_LENGTH :: nat where "SHADOW_BUFFER_LENGTH = 512 * 1024"
definition SHADOW_ENCRYPTED_LENGTH :: nat where "SHADOW_ENCRYPTED_LENGTH = 512"

text \<open>
  ``get salt from encrypted section'': \<open>encrypted\<close> is the copy of the characters between
  the exclamation mark and the next colon. \<open>strrchr\<close> answers the last \<open>$\<close>, and
  \<open>salt_used\<close> is its distance from the start, so the salt stops before it.
\<close>

definition get_salt :: "string \<Rightarrow> string result" where
  "get_salt encrypted =
     (if length encrypted < 2 then Panic ''encrypted section for account tng is malformed''
      else if encrypted ! 0 \<noteq> CHR ''$'' then Return (take 2 encrypted)
      else
        (case strrchr_idx encrypted (CHR ''$'') of
           None \<Rightarrow> Panic ''encrypted section for account tng is malformed''
         | Some encrypted_prefix_end \<Rightarrow> Return (take encrypted_prefix_end encrypted)))"

text \<open>
  ``create /etc/shadow-'', ``create /etc/shadow+'' and the rename: the end of
  \<open>replace_password\<close>, reached when the account has the default password.
\<close>

definition write_shadow :: "globals \<Rightarrow> stat \<Rightarrow> string \<Rightarrow> nat \<Rightarrow> nat \<Rightarrow> world \<Rightarrow> unit result \<times> world" where
  "write_shadow g st buffer encrypted_begin encrypted_end w =
     (case create_file SHADOW_BACKUP_PATH (st_uid st) (st_gid st) (st_mode st) w of
        (Panic m, w) \<Rightarrow> (Panic m, w)
      | (Overrun m, w) \<Rightarrow> (Overrun m, w)
      | (Return fd, w) \<Rightarrow>
     (case robust_write SHADOW_BACKUP_PATH fd buffer w of
        (Panic m, w) \<Rightarrow> (Panic m, w)
      | (Overrun m, w) \<Rightarrow> (Overrun m, w)
      | (Return _, w) \<Rightarrow>
     (let w = sys_fsync fd w in
      case create_file SHADOW_TMP_PATH (st_uid st) (st_gid st) (st_mode st) w of
        (Panic m, w) \<Rightarrow> (Panic m, w)
      | (Overrun m, w) \<Rightarrow> (Overrun m, w)
      | (Return fd, w) \<Rightarrow>
     (case robust_write SHADOW_TMP_PATH fd (take encrypted_begin buffer) w of
        (Panic m, w) \<Rightarrow> (Panic m, w)
      | (Overrun m, w) \<Rightarrow> (Overrun m, w)
      | (Return _, w) \<Rightarrow>
     (case robust_write SHADOW_TMP_PATH fd
             (field_string (encrypted_password (data_v1 (eeprom g)))) w of
        (Panic m, w) \<Rightarrow> (Panic m, w)
      | (Overrun m, w) \<Rightarrow> (Overrun m, w)
      | (Return _, w) \<Rightarrow>
     (case robust_write SHADOW_TMP_PATH fd (drop encrypted_end buffer) w of
        (Panic m, w) \<Rightarrow> (Panic m, w)
      | (Overrun m, w) \<Rightarrow> (Overrun m, w)
      | (Return _, w) \<Rightarrow>
     (let w = sys_fsync fd w in
      case sys_rename SHADOW_TMP_PATH SHADOW_PATH w of
        (Inl e, w) \<Rightarrow> (Panic (''could not rename '' @ SHADOW_TMP_PATH @ '' to '' @ SHADOW_PATH), w)
      | (Inr _, w) \<Rightarrow> (Return (), w))))))))"

text \<open>
  From ``find entry for account'' to the comparison with the encrypted default password.
  \<open>crypt_r\<close> is the library's one-way hash of a key under a salt, \<open>Inl\<close> of an
  \<open>errno\<close> when it answers \<open>NULL\<close>. Every \<open>goto cleanup\<close> is a \<open>Return\<close> with the
  world as it is. \<open>encrypted\<close> has room for 512 characters and \<open>encrypted_used > 512\<close> is
  the only test before \<open>encrypted[encrypted_used] = '\0'\<close>.
\<close>

definition replace_entry ::
  "(string \<Rightarrow> string \<Rightarrow> nat + string) \<Rightarrow> globals \<Rightarrow> stat \<Rightarrow> string \<Rightarrow> world \<Rightarrow> unit result \<times> world" where
  "replace_entry crypt_r g st buffer w =
     (case (if strncmp_eq buffer 0 (ACCOUNT_NAME @ '':'') then Some 0
            else map_option Suc (strstr buffer 0 (CHR 0x0A # ACCOUNT_NAME @ '':''))) of
        None \<Rightarrow> (Return (), w)
      | Some entry_begin \<Rightarrow>
     (case strchr buffer entry_begin (CHR '':'') of
        None \<Rightarrow> (Panic ''encrypted section for account tng is malformed'', w)
      | Some colon \<Rightarrow>
     (let encrypted_begin = colon + 1 in
      if char_at buffer encrypted_begin = CHR ''*'' then (Return (), w)
      else if char_at buffer encrypted_begin \<noteq> CHR ''!'' then (Return (), w)
      else
     (case strchr buffer encrypted_begin (CHR '':'') of
        None \<Rightarrow> (Panic ''encrypted section for account tng is malformed'', w)
      | Some encrypted_end \<Rightarrow>
     (let encrypted_used = encrypted_end - (encrypted_begin + 1) in
      if encrypted_used > SHADOW_ENCRYPTED_LENGTH
      then (Panic ''encrypted section for account tng is too big'', w)
      else if encrypted_used = SHADOW_ENCRYPTED_LENGTH
      then (Overrun ''encrypted[512]'', w)
      else
     (let encrypted = take encrypted_used (drop (encrypted_begin + 1) buffer) in
      case get_salt encrypted of
        Panic m \<Rightarrow> (Panic m, w)
      | Overrun m \<Rightarrow> (Overrun m, w)
      | Return salt \<Rightarrow>
     (case crypt_r DEFAULT_PASSWORD salt of
        Inl e \<Rightarrow> (Panic ''could not encrypt default password'', log_call Crypt salt (Fail e) w)
      | Inr crypt_result \<Rightarrow>
         (let w = log_call Crypt salt Succeed w in
          if cstr crypt_result \<noteq> encrypted then (Return (), w)
          else write_shadow g st buffer encrypted_begin encrypted_end w))))))))"

text \<open>\<open>replace_password\<close>: the guard on the record, then opening and reading the file.\<close>

definition replace_password ::
  "(string \<Rightarrow> string \<Rightarrow> nat + string) \<Rightarrow> globals \<Rightarrow> world \<Rightarrow> unit result \<times> world" where
  "replace_password crypt_r g w =
     (if \<not> eeprom_valid g \<or> data_version (header (eeprom g)) < 1 then (Return (), w)
      else
     (case sys_open SHADOW_PATH w of
        (Inl e, w) \<Rightarrow> (Panic (''could not open '' @ SHADOW_PATH @ '' for reading''), w)
      | (Inr fd, w) \<Rightarrow>
     (case sys_fstat fd w of
        (Inl e, w) \<Rightarrow> (Panic (''could not get status of '' @ SHADOW_PATH), w)
      | (Inr st, w) \<Rightarrow>
      if st_size st > SHADOW_BUFFER_LENGTH then (Panic (SHADOW_PATH @ '' is too big''), w)
      else
     (let buffer_used = st_size st in
      case sys_malloc (buffer_used + 1) w of
        (Inl e, w) \<Rightarrow> (Panic ''could not allocate memory'', w)
      | (Inr _, w) \<Rightarrow>
     (case sys_read fd buffer_used w of
        (Inl e, w) \<Rightarrow> (Panic (''could not read from '' @ SHADOW_PATH), w)
      | (Inr buffer, w) \<Rightarrow>
          if length buffer < buffer_used then (Panic (''short read from '' @ SHADOW_PATH), w)
          else replace_entry crypt_r g st buffer w)))))"


subsection \<open>Reading the trace\<close>

text \<open>The calls made between two worlds, and the calls whose failure the atomic replacer
  cannot survive: creating the file (with its owner and mode), writing it, renaming it.\<close>

definition new_calls :: "world \<Rightarrow> world \<Rightarrow> (syscall \<times> string \<times> io) list" where
  "new_calls w w' = drop (length (trace w)) (trace w')"

fun failed_update_call :: "syscall \<times> string \<times> io \<Rightarrow> bool" where
  "failed_update_call (c, p, r) = (c \<in> {Creat, Fchown, Fchmod, Write, Rename} \<and> r \<noteq> Succeed)"

fun is_write :: "syscall \<times> string \<times> io \<Rightarrow> bool" where
  "is_write (c, p, r) = (c = Write)"

text \<open>The file that \<open>update_file\<close> leaves alone: mode 0444, owner and group root.\<close>

definition up_to_date :: "world \<Rightarrow> string \<Rightarrow> string \<Rightarrow> bool" where
  "up_to_date w path content =
     (files w path = Some \<lparr>i_perm = mode_0444, i_uid = 0, i_gid = 0, i_data = content\<rparr>)"

text \<open>The three calls with which \<open>update_file\<close> looks at the existing file, its
  \<open>stat\<close>, \<open>open\<close> and \<open>read\<close>, the next three calls to come, all succeed in full.\<close>

definition read_back_ok :: "world \<Rightarrow> bool" where
  "read_back_ok w = (set (take 3 (script w)) \<subseteq> {Succeed})"

text \<open>A function panics exactly when one of the calls it made to create, write or rename
  a file failed.\<close>

definition panics_iff_failed :: "world \<Rightarrow> 'a result \<times> world \<Rightarrow> bool" where
  "panics_iff_failed w rw =
     (\<exists>evs. trace (snd rw) = trace w @ evs
        \<and> (\<forall>m. fst rw \<noteq> Overrun m)
        \<and> ((\<exists>ev \<in> set evs. failed_update_call ev) \<longleftrightarrow> (\<exists>m. fst rw = Panic m)))"

text \<open>
  The entry of the account in a password file: a line, the first of the file or one after a
  new-line, that starts with \<open>tng:\<close>; and the first such line.
\<close>

definition entry_at :: "string \<Rightarrow> nat \<Rightarrow> bool" where
  "entry_at buffer i =
     ((i = 0 \<or> buffer ! (i - 1) = CHR 0x0A) \<and> take 4 (drop i buffer) = ''tng:'')"

definition first_entry :: "string \<Rightarrow> nat \<Rightarrow> bool" where
  "first_entry buffer i = (entry_at buffer i \<and> list_all (\<lambda>j. \<not> entry_at buffer j) [0..<i])"

text \<open>The hash value is the one-way hash of the default password under the salt that
  \<open>get_salt\<close> takes from it.\<close>

definition has_default_password :: "(string \<Rightarrow> string \<Rightarrow> nat + string) \<Rightarrow> string \<Rightarrow> bool" where
  "has_default_password crypt_r hash =
     (case get_salt hash of
        Return salt \<Rightarrow>
          (case crypt_r DEFAULT_PASSWORD salt of Inr c \<Rightarrow> cstr c = hash | Inl e \<Rightarrow> False)
      | _ \<Rightarrow> False)"

text \<open>Example worlds: an identity file, a root without it, the file up to date but its
  read cut short, and a write cut short.\<close>

definition uid_path :: string where
  "uid_path = ''/mnt/etc/tng-base-uid''"

definition uid_content :: string where
  "uid_content = ''AB1234'' @ [CHR 0x0A]"

definition w_fresh :: world where
  "w_fresh = \<lparr>files = Map.empty, script = [], trace = []\<rparr>"

definition w_short_read :: world where
  "w_short_read =
     \<lparr>files = [uid_path \<mapsto> \<lparr>i_perm = mode_0444, i_uid = 0, i_gid = 0, i_data = uid_content\<rparr>],
      script = [Succeed, Succeed, Partial 3], trace = []\<rparr>"

definition w_current :: world where
  "w_current =
     \<lparr>files = [uid_path \<mapsto> \<lparr>i_perm = mode_0444, i_uid = 0, i_gid = 0, i_data = uid_content\<rparr>],
      script = [], trace = []\<rparr>"

definition w_short_write :: world where
  "w_short_write = \<lparr>files = Map.empty, script = [Succeed, Succeed, Succeed, Succeed, Partial 3], trace = []\<rparr>"

text \<open>
  Examples for \<open>replace_password\<close>: a stand-in for \<open>crypt_r\<close> (the salt, a \<open>$\<close>, the
  key), a valid record with a device password, and password files in which the account has
  the default password, another password, and a hash value of one character.
\<close>

definition toy_crypt :: "string \<Rightarrow> string \<Rightarrow> nat + string" where
  "toy_crypt key salt = Inr (salt @ ''$'' @ key)"

definition device_password :: "u8 list" where
  "device_password = [0x24, 0x36, 0x24, 0x78, 0x79, 0x24, 0x44, 0x45, 0x56] @ replicate 98 0"

definition g_device :: globals where
  "g_device =
     \<lparr>eeprom = \<lparr>header = \<lparr>magic_number = EEPROM_MAGIC_NUMBER, checksum = 0, data_length = 439,
                           data_version = 1\<rparr>,
                data_v1 = \<lparr>production_date = 0x20200827, uid = replicate 7 0,
                            hostname = replicate 65 0, encrypted_password = device_password,
                            ethernet_config = replicate 256 0\<rparr>\<rparr>,
      eeprom_valid = True\<rparr>"

definition shadow_inode :: "string \<Rightarrow> inode" where
  "shadow_inode text = \<lparr>i_perm = 6 * 8 ^ 2 + 4 * 8, i_uid = 0, i_gid = 42, i_data = text\<rparr>"

definition shadow_world :: "string \<Rightarrow> world" where
  "shadow_world text = \<lparr>files = [SHADOW_PATH \<mapsto> shadow_inode text], script = [], trace = []\<rparr>"

definition root_line :: string where
  "root_line = ''root:*:::'' @ [CHR 0x0A]"

definition rest_line :: string where
  "rest_line = ''18000:0:99999:7:::'' @ [CHR 0x0A]"

definition default_hash :: string where
  "default_hash = ''$6$abc$default-tng-password''"

fun is_crypt :: "syscall \<times> string \<times> io \<Rightarrow> bool" where
  "is_crypt (c, p, r) = (c = Crypt)"

definition shadow_default :: string where
  "shadow_default = root_line @ ''tng:!'' @ default_hash @ '':'' @ rest_line"

definition shadow_other :: string where
  "shadow_other = root_line @ ''tng:!'' @ ''$6$abc$other'' @ '':'' @ rest_line"

definition shadow_short :: string where
  "shadow_short = root_line @ ''tng:!'' @ ''x'' @ '':'' @ rest_line"

section \<open>Mounting the root device: robust_mount\<close>

text \<open>
  What libmount answers during one attempt: whether \<open>mnt_new_context\<close> gives a context,
  and the return codes of the five setters and of \<open>mnt_context_mount\<close>. The library is a
  sequence of such answers, one per attempt; the head is the attempt being made.
\<close>

record mount_answers =
  new_context_ok :: bool
  disable_helpers_rc :: int
  set_fstype_rc :: int
  set_source_rc :: int
  set_target_rc :: int
  set_mflags_rc :: int
  mount_rc :: int

text \<open>The error code of libmount (\<open>libmount.h\<close>) for a source device that was not found.\<close>

definition MNT_ERR_NOSOURCE :: int where
  "MNT_ERR_NOSOURCE = 5002"

text \<open>What \<open>robust_mount\<close> does that can be seen from outside, in order: its log lines
  (source, type, target), the contexts it makes and frees, its attempts with their return
  code, and its sleeps in microseconds.\<close>

datatype mount_event =
    Log_mounting string string string
  | New_context
  | Mount_attempt int
  | Log_missing string string string
  | Free_context
  | Usleep nat
  | Log_success string string string nat string

text \<open>
  The body of \<open>robust_mount\<close> from the label \<open>retry\<close>; \<open>goto retry\<close> is the recursive
  call, on the rest of the library's answers. \<open>retries\<close> is a \<open>size_t\<close>, 32 bits wide on
  the target. The loop has no bound: where it never ends the value is \<open>None\<close>.
  \<open>mnt_context_get_excode\<close> only fills in the text of the last panic.
\<close>

partial_function (option) retry ::
  "(nat \<Rightarrow> mount_answers) \<Rightarrow> string \<Rightarrow> string \<Rightarrow> string \<Rightarrow> 32 word \<Rightarrow> mount_event list
     \<Rightarrow> (unit result \<times> mount_event list) option" where
  "retry libmnt source target fstype retries tr =
     (let a = libmnt 0; tr = tr @ [New_context] in
      if \<not> new_context_ok a then Some (Panic ''could not create libmount context'', tr)
      else if disable_helpers_rc a < 0 then Some (Panic ''could not disable libmount helpers'', tr)
      else if set_fstype_rc a < 0 then Some (Panic (''could not set libmount fstype to '' @ fstype), tr)
      else if set_source_rc a < 0 then Some (Panic (''could not set libmount source to '' @ source), tr)
      else if set_target_rc a < 0 then Some (Panic (''could not set libmount target to '' @ target), tr)
      else if set_mflags_rc a < 0 then Some (Panic ''could not set libmount flags'', tr)
      else
        let rc = mount_rc a; tr = tr @ [Mount_attempt rc] in
        if rc \<noteq> 0 then
          (if rc = - MNT_ERR_NOSOURCE then
             retry (\<lambda>n. libmnt (Suc n)) source target fstype (retries + 1)
               (tr @ [Log_missing source fstype target, Free_context, Usleep (500 * 1000)])
           else Some (Panic (''could not mount '' @ source @ '' ('' @ fstype @ '') at '' @ target), tr))
        else
          let tr = tr @ [Free_context] in
          if retries > 0
          then Some (Return (),
                 tr @ [Log_success source fstype target (unat retries)
                         (if retries = 1 then ''retry'' else ''retries'')])
          else Some (Return (), tr))"

definition robust_mount ::
  "(nat \<Rightarrow> mount_answers) \<Rightarrow> string \<Rightarrow> string \<Rightarrow> string \<Rightarrow> (unit result \<times> mount_event list) option" where
  "robust_mount libmnt source target fstype =
     retry libmnt source target fstype 0 [Log_mounting source fstype target]"

text \<open>
  For the claims. The return code of \<open>mnt_context_mount\<close> in an attempt that gets as far
  as calling it: the context is made and no setter fails. An attempt that does so with the
  given return code. What one attempt on a missing device adds to the trace.
\<close>

definition mount_result :: "mount_answers \<Rightarrow> int option" where
  "mount_result a =
     (if new_context_ok a \<and> 0 \<le> disable_helpers_rc a \<and> 0 \<le> set_fstype_rc a
         \<and> 0 \<le> set_source_rc a \<and> 0 \<le> set_target_rc a \<and> 0 \<le> set_mflags_rc a
      then Some (mount_rc a) else None)"

definition attempt_rc :: "int \<Rightarrow> mount_answers" where
  "attempt_rc rc = \<lparr>new_context_ok = True, disable_helpers_rc = 0, set_fstype_rc = 0,
     set_source_rc = 0, set_target_rc = 0, set_mflags_rc = 0, mount_rc = rc\<rparr>"

definition missing_events :: "string \<Rightarrow> string \<Rightarrow> string \<Rightarrow> mount_event list" where
  "missing_events source target fstype =
     [New_context, Mount_attempt (- MNT_ERR_NOSOURCE), Log_missing source fstype target,
      Free_context, Usleep 500000]"

text \<open>Example libraries: the device appears at the third attempt; the first attempt fails
  with another error (\<open>-EINVAL\<close>); the device never appears.\<close>

definition late_device :: "nat \<Rightarrow> mount_answers" where
  "late_device n = (if n < 2 then attempt_rc (- MNT_ERR_NOSOURCE) else attempt_rc 0)"

definition bad_device :: "nat \<Rightarrow> mount_answers" where
  "bad_device n = attempt_rc (- 22)"

definition no_device :: "nat \<Rightarrow> mount_answers" where
  "no_device n = attempt_rc (- MNT_ERR_NOSOURCE)"

section \<open>The kernel command line: read_cmdline\<close>

text \<open>The three results of \<open>read_cmdline\<close>; \<open>None\<close> is the \<open>NULL\<close> they are set to first.\<close>

record cmdline =
  root :: "string option"
  rootfstype :: "string option"
  init :: "string option"

text \<open>The delimiters given to \<open>strtok\<close>: carriage return, new-line, tab and space.\<close>

definition is_delimiter :: "char \<Rightarrow> bool" where
  "is_delimiter c = (c \<in> {CHR 0x0D, CHR 0x0A, CHR 0x09, CHR '' ''})"

text \<open>
  One call of \<open>strtok\<close> on what is left of the string: it skips the delimiters in front,
  answers \<open>NULL\<close> if nothing is left, and otherwise the token up to the next delimiter,
  which it overwrites with a null byte; the next call goes on behind that byte, or at the
  end of the string if the token ran up to it.
\<close>

definition strtok :: "string \<Rightarrow> (string \<times> string) option" where
  "strtok s =
     (let s = dropWhile is_delimiter s in
      if s = [] then None
      else Some (takeWhile (\<lambda>c. \<not> is_delimiter c) s,
                 drop 1 (dropWhile (\<lambda>c. \<not> is_delimiter c) s)))"

text \<open>The body of the loop: the chain of \<open>strncmp\<close> tests on one token. A result is a
  pointer into the token, behind the key.\<close>

definition handle_option :: "string \<Rightarrow> cmdline \<Rightarrow> cmdline" where
  "handle_option option r =
     (if take 5 option = ''root='' then r\<lparr>root := Some (drop 5 option)\<rparr>
      else if take 11 option = ''rootfstype='' then r\<lparr>rootfstype := Some (drop 11 option)\<rparr>
      else if take 5 option = ''init='' then r\<lparr>init := Some (drop 5 option)\<rparr>
      else r)"

text \<open>The loop \<open>while (option != NULL)\<close>, on what is left of the string.\<close>

function parse_options :: "string \<Rightarrow> cmdline \<Rightarrow> cmdline" where
  "parse_options s r =
     (case strtok s of
        None \<Rightarrow> r
      | Some (option, rest) \<Rightarrow> parse_options rest (handle_option option r))"
  by pat_completeness auto
termination
proof (relation "measure (\<lambda>(s, r). length s)", goal_cases)
  case 1
  show ?case by simp
next
  case (2 s r x option rest)
  let ?s = "dropWhile is_delimiter s"
  from 2 have n: "?s \<noteq> []" and r: "rest = drop 1 (dropWhile (\<lambda>c. \<not> is_delimiter c) ?s)"
    by (auto simp: strtok_def Let_def split: if_splits)
  have "length (dropWhile (\<lambda>c. \<not> is_delimiter c) ?s) \<le> length ?s" "length ?s \<le> length s"
    by (rule length_dropWhile_le)+
  with n r show ?case by (cases ?s) auto
qed

text \<open>
  \<open>read_cmdline\<close>, given what \<open>open\<close> and \<open>read\<close> answer for \<open>/proc/cmdline\<close>: an
  \<open>errno\<close>, or the bytes delivered. \<open>read\<close> is asked for 2047 bytes, a null byte is stored
  behind them, and \<open>strtok\<close> works on the C string in the buffer.
\<close>

definition read_cmdline :: "nat + unit \<Rightarrow> nat + string \<Rightarrow> cmdline result" where
  "read_cmdline open_answer read_answer =
     (case open_answer of
        Inl e \<Rightarrow> Panic ''could not open /proc/cmdline for reading''
      | Inr _ \<Rightarrow>
         (case read_answer of
            Inl e \<Rightarrow> Panic ''could not read from /proc/cmdline''
          | Inr bytes \<Rightarrow>
              Return (parse_options (cstr (take 2047 bytes))
                        \<lparr>root = None, rootfstype = None, init = None\<rparr>)))"

text \<open>For the claims: the tokens of a string, in the order in which \<open>strtok\<close> yields them.\<close>

function tokens :: "string \<Rightarrow> string list" where
  "tokens s =
     (case strtok s of
        None \<Rightarrow> []
      | Some (option, rest) \<Rightarrow> option # tokens rest)"
  by pat_completeness auto
termination
proof (relation "measure length", goal_cases)
  case 1
  show ?case by simp
next
  case (2 s x option rest)
  let ?s = "dropWhile is_delimiter s"
  from 2 have n: "?s \<noteq> []" and r: "rest = drop 1 (dropWhile (\<lambda>c. \<not> is_delimiter c) ?s)"
    by (auto simp: strtok_def Let_def split: if_splits)
  have "length (dropWhile (\<lambda>c. \<not> is_delimiter c) ?s) \<le> length ?s" "length ?s \<le> length s"
    by (rule length_dropWhile_le)+
  with n r show ?case by (cases ?s) auto
qed

text \<open>An example command line, with two \<open>root=\<close> options.\<close>

definition example_cmdline :: string where
  "example_cmdline =
     ''console=tty1 root=/dev/mmcblk0p2 rootfstype=ext4 root=/dev/sda1  init=/sbin/init'' @ [CHR 0x0A]"

section \<open>Properties of read_eeprom\<close>

lemma crc32_append: "crc32 (crc32 c xs) ys = crc32 c (xs @ ys)"
  by (simp add: crc32_def)

lemma crc32_byte_unfold:
  "crc32_byte b c = crc32_bit (crc32_bit (crc32_bit (crc32_bit
     (crc32_bit (crc32_bit (crc32_bit (crc32_bit (c XOR ucast b))))))))"
  by (simp add: crc32_byte_def eval_nat_numeral)

declare read_header.simps [simp del]
declare read_data.simps [simp del]

lemma overlay_empty: "b \<le> a \<Longrightarrow> overlay bus a b u = u"
  by (intro nth_equalityI) (auto simp: overlay_def)

lemma overlay_step:
  assumes "i2c_read8 bus a = Some byte" and "a < b"
  shows "overlay bus (a + 1) b (u[a := byte]) = overlay bus a b u"
proof (intro nth_equalityI)
  show "length (overlay bus (a + 1) b (u[a := byte])) = length (overlay bus a b u)"
    by (simp add: overlay_def)
next
  fix i assume "i < length (overlay bus (a + 1) b (u[a := byte]))"
  then have i: "i < length u" by (simp add: overlay_def)
  show "overlay bus (a + 1) b (u[a := byte]) ! i = overlay bus a b u ! i"
  proof (cases "i = a")
    case True
    with i assms show ?thesis
      by (simp add: overlay_def)
  next
    case False
    then have "(a + 1 \<le> i) = (a \<le> i)" by arith
    with i False show ?thesis by (simp add: overlay_def)
  qed
qed

lemma read_header_None:
  "a \<le> i \<Longrightarrow> i < sizeof_header \<Longrightarrow> i2c_read8 bus i = None \<Longrightarrow> read_header bus a u = None"
proof (induction bus a u rule: read_header.induct)
  case (1 bus address u)
  show ?case
  proof (cases "i2c_read8 bus address")
    case None
    with "1.prems" show ?thesis by (subst read_header.simps) simp
  next
    case (Some byte)
    with "1.prems" have "address \<noteq> i" by auto
    with "1.prems" have "address + 1 \<le> i" by simp
    with "1.IH" [OF _ Some] "1.prems" Some show ?thesis
      by (subst read_header.simps) simp
  qed
qed

lemma read_header_Some:
  "\<forall>i. a \<le> i \<and> i < sizeof_header \<longrightarrow> i2c_read8 bus i \<noteq> None \<Longrightarrow>
   read_header bus a u = Some (overlay bus a sizeof_header u)"
proof (induction bus a u rule: read_header.induct)
  case (1 bus address u)
  show ?case
  proof (cases "address < sizeof_header")
    case False
    then have "overlay bus address sizeof_header u = u"
      by (simp add: overlay_empty)
    with False show ?thesis by (subst read_header.simps) simp
  next
    case True
    with "1.prems" obtain byte where b: "i2c_read8 bus address = Some byte" by auto
    have "read_header bus (address + 1) (u[address := byte])
          = Some (overlay bus (address + 1) sizeof_header (u[address := byte]))"
      using "1.IH" [OF True b] "1.prems" by simp
    moreover have "overlay bus (address + 1) sizeof_header (u[address := byte])
          = overlay bus address sizeof_header u"
      using b True by (rule overlay_step)
    ultimately show ?thesis using True b by (subst read_header.simps) simp
  qed
qed

lemma read_data_None:
  "a \<le> i \<Longrightarrow> i < sizeof_header + len \<Longrightarrow> i2c_read8 bus i = None \<Longrightarrow>
   read_data bus len a u chk = None"
proof (induction bus len a u chk rule: read_data.induct)
  case (1 bus len address u chk)
  show ?case
  proof (cases "i2c_read8 bus address")
    case None
    with "1.prems" show ?thesis by (subst read_data.simps) simp
  next
    case (Some byte)
    with "1.prems" have "address \<noteq> i" by auto
    with "1.prems" have "address + 1 \<le> i" by simp
    with "1.IH" [OF _ Some] "1.prems" Some show ?thesis
      by (subst read_data.simps) simp
  qed
qed

lemma read_data_Some:
  "\<forall>i. a \<le> i \<and> i < sizeof_header + len \<longrightarrow> i2c_read8 bus i \<noteq> None \<Longrightarrow>
   read_data bus len a u chk
     = Some (overlay bus a (min (sizeof_header + len) sizeof_eeprom) u,
             crc32 chk (bytes_read bus a (sizeof_header + len)))"
proof (induction bus len a u chk rule: read_data.induct)
  case (1 bus len address u chk)
  show ?case
  proof (cases "address < sizeof_header + len")
    case False
    then have "overlay bus address (min (sizeof_header + len) sizeof_eeprom) u = u"
      by (simp add: overlay_empty)
    moreover from False have "bytes_read bus address (sizeof_header + len) = []"
      by (simp add: bytes_read_def)
    moreover have "crc32 chk [] = chk" by (simp add: crc32_def)
    ultimately show ?thesis using False by (subst read_data.simps) simp
  next
    case True
    with "1.prems" obtain byte where b: "i2c_read8 bus address = Some byte" by auto
    let ?u = "if address < sizeof_eeprom then u[address := byte] else u"
    let ?m = "min (sizeof_header + len) sizeof_eeprom"
    have "read_data bus len (address + 1) ?u (crc32 chk [byte])
          = Some (overlay bus (address + 1) ?m ?u,
                  crc32 (crc32 chk [byte]) (bytes_read bus (address + 1) (sizeof_header + len)))"
      using "1.IH" [OF True b] "1.prems" by simp
    moreover have "overlay bus (address + 1) ?m ?u = overlay bus address ?m u"
    proof (cases "address < sizeof_eeprom")
      case True
      with \<open>address < sizeof_header + len\<close> have "address < ?m" by simp
      from overlay_step [OF b this] True show ?thesis by simp
    next
      case False
      then show ?thesis by (simp add: overlay_empty)
    qed
    moreover have "bytes_read bus address (sizeof_header + len)
          = byte # bytes_read bus (address + 1) (sizeof_header + len)"
      using b True by (simp add: bytes_read_def upt_conv_Cons)
    ultimately show ?thesis using True b
      by (subst read_data.simps) (simp add: crc32_append)
  qed
qed

lemma read_header_Some_iff:
  "read_header bus a u = Some u' \<longleftrightarrow>
   (\<forall>i. a \<le> i \<and> i < sizeof_header \<longrightarrow> i2c_read8 bus i \<noteq> None) \<and> u' = overlay bus a sizeof_header u"
proof (cases "\<forall>i. a \<le> i \<and> i < sizeof_header \<longrightarrow> i2c_read8 bus i \<noteq> None")
  case True
  then show ?thesis by (auto simp: read_header_Some)
next
  case False
  then obtain i where "a \<le> i" "i < sizeof_header" "i2c_read8 bus i = None" by auto
  then have "read_header bus a u = None" by (rule read_header_None)
  with False show ?thesis by simp
qed

lemma read_data_Some_iff:
  "read_data bus len a u chk = Some r \<longleftrightarrow>
   (\<forall>i. a \<le> i \<and> i < sizeof_header + len \<longrightarrow> i2c_read8 bus i \<noteq> None) \<and>
   r = (overlay bus a (min (sizeof_header + len) sizeof_eeprom) u,
        crc32 chk (bytes_read bus a (sizeof_header + len)))"
proof (cases "\<forall>i. a \<le> i \<and> i < sizeof_header + len \<longrightarrow> i2c_read8 bus i \<noteq> None")
  case True
  then show ?thesis by (auto simp: read_data_Some)
next
  case False
  then obtain i where "a \<le> i" "i < sizeof_header + len" "i2c_read8 bus i = None" by auto
  then have "read_data bus len a u chk = None" by (rule read_data_None)
  with False show ?thesis by simp
qed

lemma length_overlay [simp]: "length (overlay bus a b u) = length u"
  by (simp add: overlay_def)

lemma nth_overlay:
  "i < length u \<Longrightarrow>
   overlay bus a b u ! i = (if a \<le> i \<and> i < b then the (i2c_read8 bus i) else u ! i)"
  by (simp add: overlay_def)

lemma overlay_overlay:
  "a \<le> b \<Longrightarrow> b \<le> c \<Longrightarrow> overlay bus b c (overlay bus a b u) = overlay bus a c u"
  by (intro nth_equalityI) (auto simp: nth_overlay)

lemma header_of_cong:
  "(\<And>i. i < sizeof_header \<Longrightarrow> xs ! i = ys ! i) \<Longrightarrow> header_of xs = header_of ys"
  by (simp add: header_of_def le32_def le16_def sizeof_header_def)

lemma le16_bytes_read:
  "sizeof_header \<le> length u \<Longrightarrow> le16 (bytes_read bus 8 10) 0 = le16 (overlay bus 0 sizeof_header u) 8"
  by (simp add: le16_def bytes_read_def nth_overlay sizeof_header_def upt_rec)

lemma record_image_eq:
  assumes "sizeof_header \<le> length u0"
  shows "record_image bus u0 =
     overlay bus sizeof_header
       (min (sizeof_header + unat (data_length (header_of (overlay bus 0 sizeof_header u0)))) sizeof_eeprom)
       (overlay bus 0 sizeof_header u0)"
proof -
  have "data_length (header_of (overlay bus 0 sizeof_header u0)) = le16 (bytes_read bus 8 10) 0"
    using le16_bytes_read [OF assms] by (simp add: header_of_def)
  moreover have "sizeof_header \<le> sizeof_eeprom"
    by (simp add: sizeof_eeprom_def)
  ultimately show ?thesis
    by (simp add: record_image_def overlay_overlay)
qed

lemma header_of_record_image:
  assumes "sizeof_header \<le> length u0"
  shows "header_of (record_image bus u0) = header_of (overlay bus 0 sizeof_header u0)"
proof (rule header_of_cong)
  fix i assume "i < sizeof_header"
  with assms show "record_image bus u0 ! i = overlay bus 0 sizeof_header u0 ! i"
    by (simp add: record_image_eq nth_overlay)
qed

lemma bytes_read_split:
  "a \<le> b \<Longrightarrow> b \<le> c \<Longrightarrow> bytes_read bus a c = bytes_read bus a b @ bytes_read bus b c"
  using upt_add_eq_append [of a b "c - b"] by (simp add: bytes_read_def)

text \<open>\<open>read_eeprom\<close> as one chain of tests on the bytes the device answers.\<close>

lemma read_eeprom_unfold:
  assumes len: "length u0 = sizeof_eeprom"
  shows "read_eeprom bus u0 g =
    (let u = record_image bus u0; n = unat (data_length (header_of u)) in
     if \<not> open_ok bus \<or> \<not> slave_ok bus \<or> \<not> write16_ok bus then g\<lparr>eeprom_valid := False\<rparr>
     else if \<exists>i < sizeof_header. i2c_read8 bus i = None then g\<lparr>eeprom_valid := False\<rparr>
     else if magic_number (header_of u) \<noteq> EEPROM_MAGIC_NUMBER then g\<lparr>eeprom_valid := False\<rparr>
     else if \<exists>i < sizeof_header + n. i2c_read8 bus i = None then g\<lparr>eeprom_valid := False\<rparr>
     else if checksum (header_of u) \<noteq> crc32 crc32_init (bytes_read bus 8 (sizeof_header + n))
       then g\<lparr>eeprom_valid := False\<rparr>
     else if data_version (header_of u) < 1 then g\<lparr>eeprom_valid := False\<rparr>
     else if data_version (header_of u) = 1 \<and> n < sizeof_data_v1 then g\<lparr>eeprom_valid := False\<rparr>
     else if uid (data_v1_of u) ! 6 \<noteq> 0 then g\<lparr>eeprom_valid := False\<rparr>
     else if hostname (data_v1_of u) ! 64 \<noteq> 0 then g\<lparr>eeprom_valid := False\<rparr>
     else if encrypted_password (data_v1_of u) ! 106 \<noteq> 0 then g\<lparr>eeprom_valid := False\<rparr>
     else g\<lparr>eeprom := eeprom_of u\<rparr>\<lparr>eeprom_valid := True\<rparr>)"
proof -
  let ?u1 = "overlay bus 0 sizeof_header u0"
  let ?n = "unat (data_length (header_of ?u1))"
  let ?u2 = "overlay bus sizeof_header (min (sizeof_header + ?n) sizeof_eeprom) ?u1"
  from len have l: "sizeof_header \<le> length u0" by (simp add: sizeof_eeprom_def)
  have u2: "record_image bus u0 = ?u2" by (rule record_image_eq [OF l])
  have h: "header_of ?u2 = header_of ?u1"
    unfolding u2 [symmetric] by (rule header_of_record_image [OF l])
  define hfail where "hfail = (\<exists>i < sizeof_header. i2c_read8 bus i = None)"
  define dfail where "dfail = (\<exists>i < sizeof_header + ?n. i2c_read8 bus i = None)"
  have rh: "read_header bus 0 u0 = (if hfail then None else Some ?u1)"
    unfolding hfail_def
    using read_header_Some_iff [of bus 0 u0] by (cases "read_header bus 0 u0") auto
  have b89: "[?u1 ! 8, ?u1 ! 9] = bytes_read bus 8 10" and b10: "[?u1 ! 10] = bytes_read bus 10 11"
    using l by (simp_all add: bytes_read_def nth_overlay sizeof_header_def upt_rec)
  have chk: "crc32 (crc32 (crc32 crc32_init [?u1 ! 8, ?u1 ! 9]) [?u1 ! 10])
               (bytes_read bus sizeof_header (sizeof_header + ?n))
             = crc32 crc32_init (bytes_read bus 8 (sizeof_header + ?n))"
  proof -
    have "bytes_read bus 8 (sizeof_header + ?n)
          = bytes_read bus 8 10 @ bytes_read bus 10 11 @ bytes_read bus sizeof_header (sizeof_header + ?n)"
      using bytes_read_split [of 8 10 "sizeof_header + ?n" bus]
            bytes_read_split [of 10 11 "sizeof_header + ?n" bus]
      by (simp add: sizeof_header_def)
    then show ?thesis by (simp add: crc32_append b89 b10)
  qed
  have rd: "read_data bus ?n sizeof_header ?u1 c =
      (if dfail then None
       else Some (?u2, crc32 c (bytes_read bus sizeof_header (sizeof_header + ?n))))"
    if "\<not> hfail" for c
  proof -
    from that have eq: "(\<exists>i. sizeof_header \<le> i \<and> i < sizeof_header + ?n \<and> i2c_read8 bus i = None) = dfail"
      unfolding hfail_def dfail_def by (metis not_le_imp_less)
    show ?thesis
    proof (cases dfail)
      case True
      with eq obtain i where "sizeof_header \<le> i" "i < sizeof_header + ?n" "i2c_read8 bus i = None"
        by auto
      then have "read_data bus ?n sizeof_header ?u1 c = None" by (rule read_data_None)
      with True show ?thesis by simp
    next
      case False
      with eq have "\<forall>i. sizeof_header \<le> i \<and> i < sizeof_header + ?n \<longrightarrow> i2c_read8 bus i \<noteq> None"
        by auto
      from read_data_Some [OF this] False show ?thesis by simp
    qed
  qed
  have main: "read_eeprom bus u0 g =
    (if \<not> open_ok bus \<or> \<not> slave_ok bus \<or> \<not> write16_ok bus then g\<lparr>eeprom_valid := False\<rparr>
     else if hfail then g\<lparr>eeprom_valid := False\<rparr>
     else if magic_number (header_of ?u1) \<noteq> EEPROM_MAGIC_NUMBER then g\<lparr>eeprom_valid := False\<rparr>
     else if dfail then g\<lparr>eeprom_valid := False\<rparr>
     else if checksum (header_of ?u1) \<noteq> crc32 crc32_init (bytes_read bus 8 (sizeof_header + ?n))
       then g\<lparr>eeprom_valid := False\<rparr>
     else if data_version (header_of ?u1) < 1 then g\<lparr>eeprom_valid := False\<rparr>
     else if data_version (header_of ?u1) = 1 \<and> ?n < sizeof_data_v1 then g\<lparr>eeprom_valid := False\<rparr>
     else if uid (data_v1_of ?u2) ! 6 \<noteq> 0 then g\<lparr>eeprom_valid := False\<rparr>
     else if hostname (data_v1_of ?u2) ! 64 \<noteq> 0 then g\<lparr>eeprom_valid := False\<rparr>
     else if encrypted_password (data_v1_of ?u2) ! 106 \<noteq> 0 then g\<lparr>eeprom_valid := False\<rparr>
     else g\<lparr>eeprom := eeprom_of ?u2\<rparr>\<lparr>eeprom_valid := True\<rparr>)"
  proof (cases "\<not> open_ok bus \<or> \<not> slave_ok bus \<or> \<not> write16_ok bus")
    case True
    then show ?thesis
      by (cases "open_ok bus"; cases "slave_ok bus")
         (simp_all add: read_eeprom_def Let_def split del: if_split)
  next
    case flags: False
    show ?thesis
    proof (cases hfail)
      case True
      with flags rh show ?thesis by (simp add: read_eeprom_def Let_def split del: if_split)
    next
      case hd: False
      with rh have rh': "read_header bus 0 u0 = Some ?u1" by simp
      show ?thesis
      proof (cases "magic_number (header_of ?u1) \<noteq> EEPROM_MAGIC_NUMBER")
        case True
        with flags hd rh' show ?thesis
          by (simp add: read_eeprom_def Let_def split del: if_split)
      next
        case magic: False
        show ?thesis
        proof (cases dfail)
          case True
          with flags hd rh' magic rd [OF hd] show ?thesis
            by (simp add: read_eeprom_def Let_def split del: if_split)
        next
          case False
          with flags hd rh' magic rd [OF hd] show ?thesis
            by (simp add: read_eeprom_def Let_def h chk)
        qed
      qed
    qed
  qed
  show ?thesis
    unfolding Let_def u2 h main hfail_def dfail_def by (rule refl)
qed


lemma fold_replicate_funpow: "fold f (replicate n x) = (f x ^^ n)"
  by (induction n) (simp_all add: funpow_swap1 fun_eq_iff)

lemma funpow_numeral_pred: "(f ^^ numeral k) x = (f ^^ pred_numeral k) (f x)"
  by (simp add: numeral_eq_Suc funpow_swap1)

lemma not_u32: "NOT (x :: u32) = x XOR 0xFFFFFFFF"
proof -
  have m: "(0xFFFFFFFF :: u32) = - 1" by simp
  show ?thesis unfolding m by simp
qed

lemma crc32_eval: "crc32 c xs = fold crc32_byte xs (c XOR 0xFFFFFFFF) XOR 0xFFFFFFFF"
  by (simp only: crc32_def not_u32)

lemma crc32_v2_header: "crc32 crc32_init [0, 0, 2] = 0x114FB83E"
  by (simp add: crc32_eval crc32_init_def crc32_byte_unfold crc32_bit_def)

lemma i2c_read8_bus_of:
  "i2c_read8 (bus_of bs) i = Some (if i < length bs then bs ! i else 0)"
  by (simp add: bus_of_def)

lemma bytes_read_bus_of_8_10: "bytes_read (bus_of bs) 8 10 = [if 8 < length bs then bs ! 8 else 0, if 9 < length bs then bs ! 9 else 0]"
  by (simp add: bytes_read_def i2c_read8_bus_of upt_rec)


lemma sizes:
  "sizeof_header = 11" "sizeof_data_v1 = 439" "sizeof_eeprom = 450"
  by (simp_all add: sizeof_header_def sizeof_data_v1_def sizeof_eeprom_def ETHERNET_CONFIG_LENGTH_def)

lemma nth_bytes_read: "a + i < b \<Longrightarrow> bytes_read bus a b ! i = the (i2c_read8 bus (a + i))"
proof -
  assume "a + i < b"
  then have "i < length [a..<b]" and "[a..<b] ! i = a + i" by simp_all
  then show ?thesis by (simp add: bytes_read_def)
qed

lemma length_bytes_read [simp]: "length (bytes_read bus a b) = b - a"
  by (simp add: bytes_read_def)

lemma header_of_record_image_stream:
  assumes "length u0 = sizeof_eeprom"
  shows "header_of (record_image bus u0) = header_of (bytes_read bus 0 sizeof_header)"
proof (rule header_of_cong)
  fix i assume "i < sizeof_header"
  with assms show "record_image bus u0 ! i = bytes_read bus 0 sizeof_header ! i"
    by (simp add: record_image_def nth_overlay nth_bytes_read sizes)
qed

lemma data_length_record_image:
  assumes "length u0 = sizeof_eeprom"
  shows "data_length (header_of (record_image bus u0)) = le16 (bytes_read bus 8 10) 0"
  using le16_bytes_read [of u0 bus] header_of_record_image [of u0 bus] assms
  by (simp add: header_of_def sizes)

lemma record_image_stream:
  assumes len: "length u0 = sizeof_eeprom"
    and n: "n = unat (data_length (header_of (record_image bus u0)))"
  shows "record_image bus u0
         = take sizeof_eeprom (bytes_read bus 0 (sizeof_header + n)) @ drop (sizeof_header + n) u0"
proof -
  let ?m = "min (sizeof_header + n) sizeof_eeprom"
  have img: "record_image bus u0 = overlay bus 0 ?m u0"
    using data_length_record_image [OF len, of bus] n by (simp add: record_image_def)
  show ?thesis
  proof (intro nth_equalityI)
    show "length (record_image bus u0)
          = length (take sizeof_eeprom (bytes_read bus 0 (sizeof_header + n)) @ drop (sizeof_header + n) u0)"
      using len by (simp add: img)
  next
    fix i assume "i < length (record_image bus u0)"
    then have i: "i < sizeof_eeprom" using len by (simp add: img)
    show "record_image bus u0 ! i
          = (take sizeof_eeprom (bytes_read bus 0 (sizeof_header + n)) @ drop (sizeof_header + n) u0) ! i"
    proof (cases "i < sizeof_header + n")
      case True
      with i len show ?thesis
        by (simp add: img nth_overlay nth_append nth_bytes_read)
    next
      case False
      with i len show ?thesis
        by (simp add: img nth_overlay nth_append min_def)
    qed
  qed
qed

text \<open>What a record that was marked valid has passed.\<close>

lemma read_eeprom_validD:
  assumes len: "length u0 = sizeof_eeprom" and valid: "eeprom_valid (read_eeprom bus u0 g)"
  defines "u \<equiv> record_image bus u0"
  defines "n \<equiv> unat (data_length (header_of u))"
  shows "\<forall>i < sizeof_header + n. i2c_read8 bus i \<noteq> None"
    and "magic_number (header_of u) = EEPROM_MAGIC_NUMBER"
    and "checksum (header_of u) = crc32 crc32_init (bytes_read bus 8 (sizeof_header + n))"
    and "\<not> data_version (header_of u) < 1"
    and "data_version (header_of u) = 1 \<longrightarrow> sizeof_data_v1 \<le> n"
    and "uid (data_v1_of u) ! 6 = 0"
    and "hostname (data_v1_of u) ! 64 = 0"
    and "encrypted_password (data_v1_of u) ! 106 = 0"
    and "read_eeprom bus u0 g = g\<lparr>eeprom := eeprom_of u\<rparr>\<lparr>eeprom_valid := True\<rparr>"
proof -
  define hfail where "hfail = (\<exists>i < sizeof_header. i2c_read8 bus i = None)"
  define dfail where "dfail = (\<exists>i < sizeof_header + n. i2c_read8 bus i = None)"
  note unf = read_eeprom_unfold [OF len, of bus g, unfolded Let_def, folded u_def, folded n_def,
      folded hfail_def dfail_def]
  from valid have c: "\<not> dfail"
      "magic_number (header_of u) = EEPROM_MAGIC_NUMBER"
      "checksum (header_of u) = crc32 crc32_init (bytes_read bus 8 (sizeof_header + n))"
      "\<not> data_version (header_of u) < 1"
      "\<not> (data_version (header_of u) = 1 \<and> n < sizeof_data_v1)"
      "uid (data_v1_of u) ! 6 = 0"
      "hostname (data_v1_of u) ! 64 = 0"
      "encrypted_password (data_v1_of u) ! 106 = 0"
      "\<not> hfail" "open_ok bus" "slave_ok bus" "write16_ok bus"
    unfolding unf by (simp_all split: if_splits)
  from c(1) show "\<forall>i < sizeof_header + n. i2c_read8 bus i \<noteq> None"
    by (simp add: dfail_def)
  from c show "magic_number (header_of u) = EEPROM_MAGIC_NUMBER"
    and "checksum (header_of u) = crc32 crc32_init (bytes_read bus 8 (sizeof_header + n))"
    and "\<not> data_version (header_of u) < 1"
    and "uid (data_v1_of u) ! 6 = 0"
    and "hostname (data_v1_of u) ! 64 = 0"
    and "encrypted_password (data_v1_of u) ! 106 = 0"
    by blast+
  from c(5) show "data_version (header_of u) = 1 \<longrightarrow> sizeof_data_v1 \<le> n"
    by (simp add: not_less)
  from c show "read_eeprom bus u0 g = g\<lparr>eeprom := eeprom_of u\<rparr>\<lparr>eeprom_valid := True\<rparr>"
    unfolding unf by auto
qed

lemma read_eeprom_invalidI:
  assumes len: "length u0 = sizeof_eeprom"
    and "data_version (header_of (record_image bus u0)) < 1
         \<or> data_version (header_of (record_image bus u0)) = 1
           \<and> unat (data_length (header_of (record_image bus u0))) < sizeof_data_v1
         \<or> uid (data_v1_of (record_image bus u0)) ! 6 \<noteq> 0
         \<or> hostname (data_v1_of (record_image bus u0)) ! 64 \<noteq> 0
         \<or> encrypted_password (data_v1_of (record_image bus u0)) ! 106 \<noteq> 0"
  shows "read_eeprom bus u0 g = g\<lparr>eeprom_valid := False\<rparr>"
  using assms(2) unfolding read_eeprom_unfold [OF len] Let_def
  by auto

lemma length_record_image [simp]: "length (record_image bus u0) = length u0"
  by (simp add: record_image_def)

lemma terminators:
  assumes "length u = sizeof_eeprom"
  shows "uid (data_v1_of u) ! 6 = u ! 21"
    and "hostname (data_v1_of u) ! 64 = u ! 86"
    and "encrypted_password (data_v1_of u) ! 106 = u ! 193"
    and "u ! 21 \<in> set (uid (data_v1_of u))"
    and "u ! 86 \<in> set (hostname (data_v1_of u))"
    and "u ! 193 \<in> set (encrypted_password (data_v1_of u))"
proof -
  have n: "\<And>off k i. off + k \<le> length u \<Longrightarrow> i < k \<Longrightarrow> field u off k ! i = u ! (off + i)"
    by (simp add: field_def)
  have l: "\<And>off k. off + k \<le> length u \<Longrightarrow> length (field u off k) = k"
    by (simp add: field_def)
  show a: "uid (data_v1_of u) ! 6 = u ! 21"
    and b: "hostname (data_v1_of u) ! 64 = u ! 86"
    and c: "encrypted_password (data_v1_of u) ! 106 = u ! 193"
    using assms by (simp_all add: data_v1_of_def n sizes)
  have "6 < length (uid (data_v1_of u))" "64 < length (hostname (data_v1_of u))"
       "106 < length (encrypted_password (data_v1_of u))"
    using assms by (simp_all add: data_v1_of_def l sizes)
  then show "u ! 21 \<in> set (uid (data_v1_of u))"
    and "u ! 86 \<in> set (hostname (data_v1_of u))"
    and "u ! 193 \<in> set (encrypted_password (data_v1_of u))"
    unfolding a [symmetric] b [symmetric] c [symmetric] by simp_all
qed

subsection \<open>The example devices\<close>

lemma length_stacks [simp]:
  "length stack_zero = sizeof_eeprom" "length stack_A = sizeof_eeprom"
  by (simp_all add: stack_zero_def stack_A_def)

lemma bus_of_ok [simp]:
  "open_ok (bus_of bs)" "slave_ok (bus_of bs)" "write16_ok (bus_of bs)"
  "i2c_read8 (bus_of bs) i \<noteq> None"
  by (simp_all add: bus_of_def)

lemma header_bus_of:
  assumes "length bs = 11" and "length u0 = sizeof_eeprom"
  shows "header_of (record_image (bus_of bs) u0) = header_of bs"
proof -
  have "header_of (bytes_read (bus_of bs) 0 sizeof_header) = header_of bs"
  proof (rule header_of_cong)
    fix i assume "i < sizeof_header"
    with assms show "bytes_read (bus_of bs) 0 sizeof_header ! i = bs ! i"
      by (simp add: nth_bytes_read i2c_read8_bus_of sizes)
  qed
  with header_of_record_image_stream [OF assms(2)] show ?thesis by simp
qed

lemma bytes_read_const:
  assumes "\<And>i. a \<le> i \<Longrightarrow> i < b \<Longrightarrow> i2c_read8 bus i = Some c"
  shows "bytes_read bus a b = replicate (b - a) c"
proof (intro nth_equalityI)
  show "length (bytes_read bus a b) = length (replicate (b - a) c)" by simp
next
  fix i assume "i < length (bytes_read bus a b)"
  then have "a + i < b" by simp
  with assms [of "a + i"] show "bytes_read bus a b ! i = replicate (b - a) c ! i"
    by (simp add: nth_bytes_read)
qed

lemma v1_hdr: "header_of v1_header =
     \<lparr>magic_number = 0x21474E54, checksum = 0x35A6FF4B, data_length = 0x1B7, data_version = 1\<rparr>"
  and v2_hdr: "header_of v2_header =
     \<lparr>magic_number = 0x21474E54, checksum = 0x114FB83E, data_length = 0, data_version = 2\<rparr>"
  by (simp_all add: header_of_def le16_def le32_def v1_header_def v2_header_def)

lemma v2_short_hdr: "header_of v2_short_header =
     \<lparr>magic_number = 0x21474E54, checksum = 0x2DAE34A1, data_length = 0xB7, data_version = 2\<rparr>"
  and v1_short_hdr: "header_of v1_short_header =
     \<lparr>magic_number = 0x21474E54, checksum = 0xE8F2A76F, data_length = 0xB7, data_version = 1\<rparr>"
  by (simp_all add: header_of_def le16_def le32_def v2_short_header_def v1_short_header_def)

lemma v2_stream: "bytes_read (bus_of v2_header) 8 11 = [0, 0, 2]"
  by (simp add: bytes_read_def i2c_read8_bus_of v2_header_def upt_rec)

lemma v1_stream: "bytes_read (bus_of v1_header) 8 450 = 0xB7 # 1 # 1 # replicate 439 0"
proof -
  have "bytes_read (bus_of v1_header) 8 11 = [0xB7, 1, 1]"
    by (simp add: bytes_read_def i2c_read8_bus_of v1_header_def upt_rec)
  moreover have "bytes_read (bus_of v1_header) 11 450 = replicate 439 0"
    by (rule bytes_read_const [of 11 450 _ 0, simplified])
       (simp add: i2c_read8_bus_of v1_header_def)
  ultimately show ?thesis
    using bytes_read_split [of 8 11 450 "bus_of v1_header"] by simp
qed


lemma v2_short_stream: "bytes_read (bus_of v2_short_header) 8 194 = 0xB7 # 0 # 2 # replicate 183 0"
proof -
  have "bytes_read (bus_of v2_short_header) 8 11 = [0xB7, 0, 2]"
    by (simp add: bytes_read_def i2c_read8_bus_of v2_short_header_def upt_rec)
  moreover have "bytes_read (bus_of v2_short_header) 11 194 = replicate 183 0"
    by (rule bytes_read_const [of 11 194 _ 0, simplified])
       (simp add: i2c_read8_bus_of v2_short_header_def)
  ultimately show ?thesis
    using bytes_read_split [of 8 11 194 "bus_of v2_short_header"] by simp
qed

lemma v1_short_stream: "bytes_read (bus_of v1_short_header) 8 194 = 0xB7 # 0 # 1 # replicate 183 0"
proof -
  have "bytes_read (bus_of v1_short_header) 8 11 = [0xB7, 0, 1]"
    by (simp add: bytes_read_def i2c_read8_bus_of v1_short_header_def upt_rec)
  moreover have "bytes_read (bus_of v1_short_header) 11 194 = replicate 183 0"
    by (rule bytes_read_const [of 11 194 _ 0, simplified])
       (simp add: i2c_read8_bus_of v1_short_header_def)
  ultimately show ?thesis
    using bytes_read_split [of 8 11 194 "bus_of v1_short_header"] by simp
qed

lemma crc32_v1_record: "crc32 crc32_init (0xB7 # 1 # 1 # replicate 439 0) = 0x35A6FF4B"
  unfolding crc32_eval fold_simps fold_replicate_funpow
  by (simp add: crc32_init_def funpow_numeral_pred crc32_byte_unfold crc32_bit_def)


lemma crc32_v2_short: "crc32 crc32_init (0xB7 # 0 # 2 # replicate 183 0) = 0x2DAE34A1"
  unfolding crc32_eval fold_simps fold_replicate_funpow
  by (simp add: crc32_init_def funpow_numeral_pred crc32_byte_unfold crc32_bit_def)

lemma crc32_v1_short: "crc32 crc32_init (0xB7 # 0 # 1 # replicate 183 0) = 0xE8F2A76F"
  unfolding crc32_eval fold_simps fold_replicate_funpow
  by (simp add: crc32_init_def funpow_numeral_pred crc32_byte_unfold crc32_bit_def)

lemma v2_short_valid: "eeprom_valid (read_eeprom (bus_of v2_header) stack_zero g0)"
proof -
  have h: "header_of (record_image (bus_of v2_header) stack_zero) = header_of v2_header"
    by (rule header_bus_of) (simp_all add: v2_header_def)
  have t: "record_image (bus_of v2_header) stack_zero ! 21 = 0"
    "record_image (bus_of v2_header) stack_zero ! 86 = 0"
    "record_image (bus_of v2_header) stack_zero ! 193 = 0"
    by (simp_all add: record_image_def nth_overlay sizes stack_zero_def i2c_read8_bus_of v2_header_def)
  show ?thesis
    unfolding read_eeprom_unfold [OF length_stacks(1)] Let_def h v2_hdr
    by (simp add: v2_stream crc32_v2_header EEPROM_MAGIC_NUMBER_def sizes
        terminators [of "record_image (bus_of v2_header) stack_zero"] t)
qed

lemma v1_valid: "eeprom_valid (read_eeprom (bus_of v1_header) stack_A g0)"
proof -
  have h: "header_of (record_image (bus_of v1_header) stack_A) = header_of v1_header"
    by (rule header_bus_of) (simp_all add: v1_header_def)
  have t: "record_image (bus_of v1_header) stack_A ! 21 = 0"
    "record_image (bus_of v1_header) stack_A ! 86 = 0"
    "record_image (bus_of v1_header) stack_A ! 193 = 0"
    unfolding record_image_def bytes_read_bus_of_8_10
    by (simp_all add: nth_overlay sizes i2c_read8_bus_of v1_header_def le16_def)
  show ?thesis
    unfolding read_eeprom_unfold [OF length_stacks(2)] Let_def h v1_hdr
    by (simp add: v1_stream crc32_v1_record EEPROM_MAGIC_NUMBER_def sizes
        terminators [of "record_image (bus_of v1_header) stack_A"] t)
qed


lemma v2_short_record_valid: "eeprom_valid (read_eeprom (bus_of v2_short_header) stack_A g0)"
proof -
  have h: "header_of (record_image (bus_of v2_short_header) stack_A) = header_of v2_short_header"
    by (rule header_bus_of) (simp_all add: v2_short_header_def)
  have t: "record_image (bus_of v2_short_header) stack_A ! 21 = 0"
    "record_image (bus_of v2_short_header) stack_A ! 86 = 0"
    "record_image (bus_of v2_short_header) stack_A ! 193 = 0"
    unfolding record_image_def bytes_read_bus_of_8_10
    by (simp_all add: nth_overlay sizes i2c_read8_bus_of v2_short_header_def le16_def)
  show ?thesis
    unfolding read_eeprom_unfold [OF length_stacks(2)] Let_def h v2_short_hdr
    by (simp add: v2_short_stream crc32_v2_short EEPROM_MAGIC_NUMBER_def sizes
        terminators [of "record_image (bus_of v2_short_header) stack_A"] t)
qed

lemma v2_short_record_ethernet:
  "ethernet_config (data_v1_of (record_image (bus_of v2_short_header) stack_A)) = replicate 256 0x41"
  by (intro nth_equalityI)
     (simp_all add: data_v1_of_def field_def record_image_def bytes_read_bus_of_8_10
        v2_short_header_def le16_def nth_overlay stack_A_def sizes ETHERNET_CONFIG_LENGTH_def)

subsection \<open>Claims about read_eeprom\<close>

text \<open>
  C1. The length test of \<open>read_eeprom\<close> is guarded by \<open>data_version == 1\<close>, so a record
  whose \<open>data_length\<close> is shorter than the version-1 payload is marked absent when its
  \<open>data_version\<close> is 1 and passes when its \<open>data_version\<close> is 2. The device answers a
  version-2 header that announces 183 payload bytes, with the matching checksum, and a
  payload of zeros: the record is marked valid, and its \<open>ethernet_config\<close>, of which no
  byte was read, is what the stack held on entry (here 256 bytes \<open>0x41\<close>). The same record
  with \<open>data_version\<close> 1, its checksum matching too, is marked absent. A version-2 header
  that announces an empty payload is marked valid as well when the stack holds zeros.
\<close>

theorem read_eeprom_short_v2_marked_valid:
  "unat (data_length (header_of (record_image (bus_of v2_short_header) stack_A))) < sizeof_data_v1
   \<and> eeprom_valid (read_eeprom (bus_of v2_short_header) stack_A g0)
   \<and> ethernet_config (data_v1 (eeprom (read_eeprom (bus_of v2_short_header) stack_A g0)))
       = replicate 256 0x41
   \<and> checksum (header_of (record_image (bus_of v1_short_header) stack_A))
       = crc32 crc32_init (bytes_read (bus_of v1_short_header) 8 194)
   \<and> read_eeprom (bus_of v1_short_header) stack_A g0 = g0\<lparr>eeprom_valid := False\<rparr>
   \<and> unat (data_length (header_of (record_image (bus_of v2_header) stack_zero))) < sizeof_data_v1
   \<and> eeprom_valid (read_eeprom (bus_of v2_header) stack_zero g0)"
proof -
  have h2: "header_of (record_image (bus_of v2_short_header) stack_A) = header_of v2_short_header"
    by (rule header_bus_of) (simp_all add: v2_short_header_def)
  have h1: "header_of (record_image (bus_of v1_short_header) stack_A) = header_of v1_short_header"
    by (rule header_bus_of) (simp_all add: v1_short_header_def)
  have h: "header_of (record_image (bus_of v2_header) stack_zero) = header_of v2_header"
    by (rule header_bus_of) (simp_all add: v2_header_def)
  have a: "unat (data_length (header_of (record_image (bus_of v2_short_header) stack_A))) < sizeof_data_v1"
    by (simp add: h2 v2_short_hdr sizes)
  note b = v2_short_record_valid
  from read_eeprom_validD(9) [OF length_stacks(2) b]
  have "data_v1 (eeprom (read_eeprom (bus_of v2_short_header) stack_A g0))
        = data_v1_of (record_image (bus_of v2_short_header) stack_A)"
    by (simp add: eeprom_of_def)
  then have c: "ethernet_config (data_v1 (eeprom (read_eeprom (bus_of v2_short_header) stack_A g0)))
       = replicate 256 0x41"
    by (simp only: v2_short_record_ethernet)
  have d: "checksum (header_of (record_image (bus_of v1_short_header) stack_A))
       = crc32 crc32_init (bytes_read (bus_of v1_short_header) 8 194)"
    by (simp add: h1 v1_short_hdr v1_short_stream crc32_v1_short)
  have e: "read_eeprom (bus_of v1_short_header) stack_A g0 = g0\<lparr>eeprom_valid := False\<rparr>"
    by (rule read_eeprom_invalidI [OF length_stacks(2)]) (simp add: h1 v1_short_hdr sizes)
  have f: "unat (data_length (header_of (record_image (bus_of v2_header) stack_zero))) < sizeof_data_v1"
    by (simp add: h v2_hdr sizes)
  from a b c d e f v2_short_valid show ?thesis by blast
qed

text \<open>
  C2. For a record that \<open>read_eeprom\<close> marks valid, every read of the header and of the
  \<open>data_length\<close> payload bytes succeeded, and the checksum stored in the header is the CRC-32,
  started from the empty-stream value, of the two bytes of \<open>data_length\<close>, then the byte of
  \<open>data_version\<close>, then all payload bytes in order. The record kept is made of the first
  \<open>sizeof(EEPROM)\<close> bytes only: payload bytes beyond the structure enter the checksum and are
  not stored.
\<close>

theorem read_eeprom_valid_checksum:
  assumes "length u0 = sizeof_eeprom" and "eeprom_valid (read_eeprom bus u0 g)"
  shows "let h = header (eeprom (read_eeprom bus u0 g)); n = unat (data_length h) in
     (\<forall>i < sizeof_header + n. i2c_read8 bus i \<noteq> None)
     \<and> h = header_of (bytes_read bus 0 sizeof_header)
     \<and> checksum h = crc32 (crc32 (crc32 crc32_init (bytes_read bus 8 10)) (bytes_read bus 10 11))
                      (bytes_read bus sizeof_header (sizeof_header + n))
     \<and> eeprom (read_eeprom bus u0 g)
         = eeprom_of (take sizeof_eeprom (bytes_read bus 0 (sizeof_header + n))
                      @ drop (sizeof_header + n) u0)"
proof -
  let ?u = "record_image bus u0"
  let ?n = "unat (data_length (header_of ?u))"
  note d = read_eeprom_validD [OF assms]
  have r: "eeprom (read_eeprom bus u0 g) = eeprom_of ?u" by (simp add: d(9))
  then have h: "header (eeprom (read_eeprom bus u0 g)) = header_of ?u" by (simp add: eeprom_of_def)
  have "bytes_read bus 8 (sizeof_header + ?n)
        = bytes_read bus 8 10 @ bytes_read bus 10 11 @ bytes_read bus sizeof_header (sizeof_header + ?n)"
    using bytes_read_split [of 8 10 "sizeof_header + ?n" bus]
          bytes_read_split [of 10 11 "sizeof_header + ?n" bus]
    by (simp add: sizes)
  with d(3) have c: "checksum (header_of ?u)
      = crc32 (crc32 (crc32 crc32_init (bytes_read bus 8 10)) (bytes_read bus 10 11))
              (bytes_read bus sizeof_header (sizeof_header + ?n))"
    by (simp add: crc32_append)
  show ?thesis
    unfolding Let_def h
    using d(1) c header_of_record_image_stream [OF assms(1), of bus]
      record_image_stream [OF assms(1) refl, of bus] r
    by simp
qed

theorem read_eeprom_valid_checksum_witness:
  "length stack_A = sizeof_eeprom \<and> eeprom_valid (read_eeprom (bus_of v1_header) stack_A g0)
   \<and> (let h = header (eeprom (read_eeprom (bus_of v1_header) stack_A g0));
          n = unat (data_length h) in
     (\<forall>i < sizeof_header + n. i2c_read8 (bus_of v1_header) i \<noteq> None)
     \<and> h = header_of (bytes_read (bus_of v1_header) 0 sizeof_header)
     \<and> checksum h = crc32 (crc32 (crc32 crc32_init (bytes_read (bus_of v1_header) 8 10))
                               (bytes_read (bus_of v1_header) 10 11))
                      (bytes_read (bus_of v1_header) sizeof_header (sizeof_header + n))
     \<and> eeprom (read_eeprom (bus_of v1_header) stack_A g0)
         = eeprom_of (take sizeof_eeprom (bytes_read (bus_of v1_header) 0 (sizeof_header + n))
                      @ drop (sizeof_header + n) stack_A))"
  using read_eeprom_valid_checksum [OF length_stacks(2) v1_valid] v1_valid by simp

text \<open>
  C8. A record whose \<open>uid\<close> (7 bytes), \<open>hostname\<close> (65 bytes) or \<open>encrypted_password\<close>
  (107 bytes) field holds no null byte is marked absent, whatever the header says.
\<close>

theorem read_eeprom_rejects_unterminated:
  assumes "length u0 = sizeof_eeprom"
    and "0 \<notin> set (uid (data_v1_of (record_image bus u0)))
         \<or> 0 \<notin> set (hostname (data_v1_of (record_image bus u0)))
         \<or> 0 \<notin> set (encrypted_password (data_v1_of (record_image bus u0)))"
  shows "read_eeprom bus u0 g = g\<lparr>eeprom_valid := False\<rparr>"
proof -
  let ?u = "record_image bus u0"
  from assms(1) have l: "length ?u = sizeof_eeprom" by simp
  note t = terminators [OF l]
  from assms(2) t(4-6) have "?u ! 21 \<noteq> 0 \<or> ?u ! 86 \<noteq> 0 \<or> ?u ! 193 \<noteq> 0"
    by metis
  then show ?thesis
    by (intro read_eeprom_invalidI [OF assms(1)]) (simp add: t(1-3))
qed

theorem read_eeprom_rejects_unterminated_witness:
  "length stack_A = sizeof_eeprom
   \<and> 0 \<notin> set (uid (data_v1_of (record_image (bus_of v2_header) stack_A)))
   \<and> read_eeprom (bus_of v2_header) stack_A g0 = g0\<lparr>eeprom_valid := False\<rparr>"
proof -
  have "uid (data_v1_of (record_image (bus_of v2_header) stack_A)) = replicate 7 0x41"
    by (intro nth_equalityI)
       (simp_all add: data_v1_of_def field_def record_image_def bytes_read_bus_of_8_10
          v2_header_def le16_def nth_overlay stack_A_def sizes)
  then have u: "0 \<notin> set (uid (data_v1_of (record_image (bus_of v2_header) stack_A)))"
    by simp
  from read_eeprom_rejects_unterminated [of stack_A "bus_of v2_header" g0] u
  show ?thesis by simp
qed


section \<open>Properties of update_file and replace_password\<close>

subsection \<open>System calls when nothing fails\<close>

lemmas sys_defs = sys_stat_def sys_fstat_def sys_open_def sys_lookup_def sys_malloc_def
  sys_read_def sys_creat_def sys_modify_def sys_fchown_def sys_fchmod_def sys_write_def
  sys_fsync_def sys_rename_def next_io_def log_call_def

lemma perm_bits_0444 [simp]: "perm_bits mode_0444 = mode_0444"
  by (simp add: perm_bits_def mode_0444_def)

lemma create_file_calm:
  assumes "script w = []"
  shows "create_file path u g mode w =
    (Return path,
     w\<lparr>files := (files w)(path \<mapsto> \<lparr>i_perm = perm_bits mode, i_uid = u, i_gid = g, i_data = []\<rparr>),
       trace := trace w @ [(Creat, path, Succeed), (Fchown, path, Succeed), (Fchmod, path, Succeed)]\<rparr>)"
proof (cases "files w path")
  case None
  with assms show ?thesis by (simp add: create_file_def sys_defs)
next
  case (Some f)
  with assms show ?thesis by (cases f) (simp add: create_file_def sys_defs)
qed

lemma robust_write_calm:
  assumes "script w = []" and "files w fd = Some i"
  shows "robust_write path fd buffer w =
    (Return (),
     w\<lparr>files := (files w)(fd \<mapsto> i\<lparr>i_data := i_data i @ buffer\<rparr>),
       trace := trace w @ [(Write, fd, Succeed)]\<rparr>)"
  using assms by (simp add: robust_write_def sys_defs)

lemma update_calm:
  assumes "script w = []"
  shows "update path content w =
    (Return (),
     w\<lparr>files := (files w)(take 255 (path @ ''.tmp'') := None,
                path \<mapsto> \<lparr>i_perm = mode_0444, i_uid = 0, i_gid = 0, i_data = content\<rparr>),
       trace := trace w @
         [(Creat, take 255 (path @ ''.tmp''), Succeed), (Fchown, take 255 (path @ ''.tmp''), Succeed),
          (Fchmod, take 255 (path @ ''.tmp''), Succeed), (Write, take 255 (path @ ''.tmp''), Succeed),
          (Fsync, take 255 (path @ ''.tmp''), Succeed), (Rename, take 255 (path @ ''.tmp''), Succeed)]\<rparr>)"
proof -
  let ?tmp = "take 255 (path @ ''.tmp'')"
  let ?w1 = "w\<lparr>files := (files w)(?tmp \<mapsto> \<lparr>i_perm = mode_0444, i_uid = 0, i_gid = 0, i_data = []\<rparr>),
       trace := trace w @ [(Creat, ?tmp, Succeed), (Fchown, ?tmp, Succeed), (Fchmod, ?tmp, Succeed)]\<rparr>"
  have c: "create_file ?tmp 0 0 mode_0444 w = (Return ?tmp, ?w1)"
    using create_file_calm [OF assms, of ?tmp 0 0 mode_0444] by simp
  have s1: "script ?w1 = []" using assms by simp
  have f1: "files ?w1 ?tmp = Some \<lparr>i_perm = mode_0444, i_uid = 0, i_gid = 0, i_data = []\<rparr>"
    by simp
  note wr = robust_write_calm [OF s1 f1, of ?tmp content]
  show ?thesis
    unfolding update_def Let_def c prod.case result.case wr
    using assms by (auto simp: sys_defs fun_upd_twist)
qed

lemma update_file_up_to_date:
  assumes "up_to_date w path content" and "script w = []"
  shows "update_file path content w =
    (Return (), w\<lparr>trace := trace w @ [(Stat, path, Succeed), (Open, path, Succeed), (Read, path, Succeed)]\<rparr>)"
  using assms by (simp add: update_file_def up_to_date_def sys_defs stat_of_def)

lemma update_file_read_back:
  assumes "up_to_date w path content" and "read_back_ok w"
  shows "update_file path content w =
    (Return (), w\<lparr>script := drop 3 (script w),
       trace := trace w @ [(Stat, path, Succeed), (Open, path, Succeed), (Read, path, Succeed)]\<rparr>)"
proof (cases "script w")
  case Nil
  with assms(1) show ?thesis
    by (simp add: update_file_def up_to_date_def sys_defs stat_of_def)
next
  case 1: (Cons a r1)
  show ?thesis
  proof (cases r1)
    case Nil
    with 1 assms show ?thesis
      by (simp add: update_file_def up_to_date_def read_back_ok_def sys_defs stat_of_def)
  next
    case 2: (Cons b r2)
    show ?thesis
    proof (cases r2)
      case Nil
      with 1 2 assms show ?thesis
        by (simp add: update_file_def up_to_date_def read_back_ok_def sys_defs stat_of_def)
    next
      case (Cons c r3)
      with 1 2 assms show ?thesis
        by (simp add: update_file_def up_to_date_def read_back_ok_def sys_defs stat_of_def
            eval_nat_numeral)
    qed
  qed
qed

lemma update_file_stale:
  assumes "\<not> up_to_date w path content" and "script w = []"
  shows "\<exists>evs. set evs \<subseteq> {(Stat, path, Fail ENOENT), (Stat, path, Succeed), (Open, path, Succeed), (Read, path, Succeed)}
    \<and> update_file path content w =
    (Return (),
     w\<lparr>files := (files w)(take 255 (path @ ''.tmp'') := None,
                path \<mapsto> \<lparr>i_perm = mode_0444, i_uid = 0, i_gid = 0, i_data = content\<rparr>),
       trace := trace w @ evs @
         [(Creat, take 255 (path @ ''.tmp''), Succeed), (Fchown, take 255 (path @ ''.tmp''), Succeed),
          (Fchmod, take 255 (path @ ''.tmp''), Succeed), (Write, take 255 (path @ ''.tmp''), Succeed),
          (Fsync, take 255 (path @ ''.tmp''), Succeed), (Rename, take 255 (path @ ''.tmp''), Succeed)]\<rparr>)"
proof (cases "files w path")
  case None
  let ?w = "w\<lparr>trace := trace w @ [(Stat, path, Fail ENOENT)]\<rparr>"
  have "script ?w = []" using assms by simp
  from update_calm [OF this, of path content] None assms(2)
  have "update_file path content w =
    (Return (),
     w\<lparr>files := (files w)(take 255 (path @ ''.tmp'') := None,
                path \<mapsto> \<lparr>i_perm = mode_0444, i_uid = 0, i_gid = 0, i_data = content\<rparr>),
       trace := trace w @ [(Stat, path, Fail ENOENT)] @
         [(Creat, take 255 (path @ ''.tmp''), Succeed), (Fchown, take 255 (path @ ''.tmp''), Succeed),
          (Fchmod, take 255 (path @ ''.tmp''), Succeed), (Write, take 255 (path @ ''.tmp''), Succeed),
          (Fsync, take 255 (path @ ''.tmp''), Succeed), (Rename, take 255 (path @ ''.tmp''), Succeed)]\<rparr>)"
    by (simp add: update_file_def sys_defs)
  then show ?thesis by (intro exI [of _ "[(Stat, path, Fail ENOENT)]"]) simp
next
  case (Some f)
  let ?ws = "w\<lparr>trace := trace w @ [(Stat, path, Succeed)]\<rparr>"
  let ?wr = "w\<lparr>trace := trace w @ [(Stat, path, Succeed), (Open, path, Succeed), (Read, path, Succeed)]\<rparr>"
  have ss: "script ?ws = []" and sr: "script ?wr = []" using assms by simp_all
  show ?thesis
  proof (cases "i_perm f = mode_0444 \<and> i_uid f = 0 \<and> i_gid f = 0 \<and> length (i_data f) = length content")
    case False
    with update_calm [OF ss, of path content] Some assms(2)
    have "update_file path content w =
      (Return (),
       w\<lparr>files := (files w)(take 255 (path @ ''.tmp'') := None,
                  path \<mapsto> \<lparr>i_perm = mode_0444, i_uid = 0, i_gid = 0, i_data = content\<rparr>),
         trace := trace w @ [(Stat, path, Succeed)] @
           [(Creat, take 255 (path @ ''.tmp''), Succeed), (Fchown, take 255 (path @ ''.tmp''), Succeed),
            (Fchmod, take 255 (path @ ''.tmp''), Succeed), (Write, take 255 (path @ ''.tmp''), Succeed),
            (Fsync, take 255 (path @ ''.tmp''), Succeed), (Rename, take 255 (path @ ''.tmp''), Succeed)]\<rparr>)"
      by (auto simp: update_file_def sys_defs stat_of_def)
    then show ?thesis by (intro exI [of _ "[(Stat, path, Succeed)]"]) simp
  next
    case True
    with assms(1) Some have "i_data f \<noteq> content"
      by (cases f) (auto simp: up_to_date_def)
    with True update_calm [OF sr, of path content] Some assms(2)
    have "update_file path content w =
      (Return (),
       w\<lparr>files := (files w)(take 255 (path @ ''.tmp'') := None,
                  path \<mapsto> \<lparr>i_perm = mode_0444, i_uid = 0, i_gid = 0, i_data = content\<rparr>),
         trace := trace w @ [(Stat, path, Succeed), (Open, path, Succeed), (Read, path, Succeed)] @
           [(Creat, take 255 (path @ ''.tmp''), Succeed), (Fchown, take 255 (path @ ''.tmp''), Succeed),
            (Fchmod, take 255 (path @ ''.tmp''), Succeed), (Write, take 255 (path @ ''.tmp''), Succeed),
            (Fsync, take 255 (path @ ''.tmp''), Succeed), (Rename, take 255 (path @ ''.tmp''), Succeed)]\<rparr>)"
      by (simp add: update_file_def sys_defs stat_of_def)
    then show ?thesis
      by (intro exI [of _ "[(Stat, path, Succeed), (Open, path, Succeed), (Read, path, Succeed)]"]) simp
  qed
qed


subsection \<open>System calls under any script: what the trace gains\<close>

lemma sys_creat_cases:
  assumes "sys_creat p m w = (r, w')"
  shows "(\<exists>e. r = Inl e \<and> trace w' = trace w @ [(Creat, p, Fail e)])
       \<or> (r = Inr p \<and> trace w' = trace w @ [(Creat, p, Succeed)])"
  using assms by (auto simp: sys_creat_def next_io_def log_call_def Let_def split: list.splits io.splits)

lemma sys_modify_cases:
  assumes "sys_modify c f fd w = (r, w')"
  shows "(\<exists>e. r = Inl e \<and> trace w' = trace w @ [(c, fd, Fail e)])
       \<or> (r = Inr () \<and> trace w' = trace w @ [(c, fd, Succeed)])"
  using assms
  by (auto simp: sys_modify_def next_io_def log_call_def split: list.splits io.splits option.splits)

lemma sys_write_cases:
  assumes "sys_write fd buffer w = (r, w')"
  shows "(\<exists>e. r = Inl e \<and> trace w' = trace w @ [(Write, fd, Fail e)])
       \<or> (\<exists>k. r = Inr k \<and> k < length buffer \<and> trace w' = trace w @ [(Write, fd, Partial k)])
       \<or> (r = Inr (length buffer) \<and> trace w' = trace w @ [(Write, fd, Succeed)])"
  using assms
  by (auto simp: sys_write_def next_io_def log_call_def
           split: list.splits io.splits option.splits if_splits)

lemma sys_rename_cases:
  assumes "sys_rename src dst w = (r, w')"
  shows "(\<exists>e. r = Inl e \<and> trace w' = trace w @ [(Rename, src, Fail e)])
       \<or> (r = Inr () \<and> trace w' = trace w @ [(Rename, src, Succeed)])"
  using assms
  by (auto simp: sys_rename_def next_io_def log_call_def
           split: list.splits io.splits option.splits if_splits)

lemma sys_lookup_cases:
  assumes "sys_lookup c missing f p w = (r, w')"
  shows "\<exists>x. trace w' = trace w @ [(c, p, x)]"
  using assms
  by (auto simp: sys_lookup_def next_io_def log_call_def split: list.splits io.splits option.splits)

lemma sys_read_cases:
  assumes "sys_read fd n w = (r, w')"
  shows "\<exists>x. trace w' = trace w @ [(Read, fd, x)]"
  using assms
  by (auto simp: sys_read_def next_io_def log_call_def
           split: list.splits io.splits option.splits if_splits)

lemma create_file_trace: "panics_iff_failed w (create_file p u g m w)"
proof -
  obtain r1 w1 where c1: "sys_creat p m w = (r1, w1)" by (cases "sys_creat p m w")
  obtain r2 w2 where c2: "sys_fchown p u g w1 = (r2, w2)" by (cases "sys_fchown p u g w1")
  obtain r3 w3 where c3: "sys_fchmod p m w2 = (r3, w3)" by (cases "sys_fchmod p m w2")
  from sys_creat_cases [OF c1] sys_modify_cases [OF c2 [unfolded sys_fchown_def]]
       sys_modify_cases [OF c3 [unfolded sys_fchmod_def]]
  show ?thesis
    unfolding panics_iff_failed_def create_file_def c1
    by (auto simp: c2 c3)
qed

lemma robust_write_trace: "panics_iff_failed w (robust_write p fd buffer w)"
proof -
  obtain r1 w1 where c1: "sys_write fd buffer w = (r1, w1)" by (cases "sys_write fd buffer w")
  from sys_write_cases [OF c1] show ?thesis
    unfolding panics_iff_failed_def robust_write_def c1
    by auto
qed

lemma panics_iff_failed_Return:
  assumes "panics_iff_failed w (Return x, w1)" and "panics_iff_failed w1 rw"
  shows "panics_iff_failed w rw"
  using assms unfolding panics_iff_failed_def by fastforce

lemma panics_iff_failed_pass:
  assumes "panics_iff_failed w (r, w')" and "\<forall>x. r \<noteq> Return x"
  shows "panics_iff_failed w (case r of Return x \<Rightarrow> f x | Panic m \<Rightarrow> (Panic m, w') | Overrun m \<Rightarrow> (Overrun m, w'))"
  using assms unfolding panics_iff_failed_def by (cases r) auto

lemma panics_iff_failed_skip:
  assumes "trace w1 = trace w @ [ev]" and "\<not> failed_update_call ev" and "panics_iff_failed w1 rw"
  shows "panics_iff_failed w rw"
  using assms unfolding panics_iff_failed_def by fastforce

lemma update_trace: "panics_iff_failed w (update path content w)"
proof -
  let ?tmp = "take 255 (path @ ''.tmp'')"
  obtain r1 w1 where c1: "create_file ?tmp 0 0 mode_0444 w = (r1, w1)"
    by (cases "create_file ?tmp 0 0 mode_0444 w")
  have t1: "panics_iff_failed w (r1, w1)" using create_file_trace [of w ?tmp 0 0 mode_0444] c1 by simp
  show ?thesis
  proof (cases r1)
    case (Return fd)
    obtain r2 w2 where c2: "robust_write ?tmp fd content w1 = (r2, w2)"
      by (cases "robust_write ?tmp fd content w1")
    have t2: "panics_iff_failed w1 (r2, w2)" using robust_write_trace [of w1 ?tmp fd content] c2 by simp
    show ?thesis
    proof (cases r2)
      case r2: (Return u)
      obtain r3 w3 where c3: "sys_rename ?tmp path (sys_fsync fd w2) = (r3, w3)"
        by (cases "sys_rename ?tmp path (sys_fsync fd w2)")
      have f: "trace (sys_fsync fd w2) = trace w2 @ [(Fsync, fd, Succeed)]"
        by (simp add: sys_fsync_def log_call_def)
      have "panics_iff_failed (sys_fsync fd w2)
              (case r3 of Inl e \<Rightarrow> (Panic (''could not rename '' @ ?tmp @ '' to '' @ path), w3)
                        | Inr u \<Rightarrow> (Return (), w3))"
        using sys_rename_cases [OF c3] unfolding panics_iff_failed_def by auto
      then have "panics_iff_failed w2
              (case r3 of Inl e \<Rightarrow> (Panic (''could not rename '' @ ?tmp @ '' to '' @ path), w3)
                        | Inr u \<Rightarrow> (Return (), w3))"
        by (rule panics_iff_failed_skip [OF f, rotated]) simp
      then have "panics_iff_failed w
              (case r3 of Inl e \<Rightarrow> (Panic (''could not rename '' @ ?tmp @ '' to '' @ path), w3)
                        | Inr u \<Rightarrow> (Return (), w3))"
        using t1 t2 unfolding Return r2
        by (blast intro: panics_iff_failed_Return)
      then show ?thesis
        unfolding update_def Let_def c1 Return prod.case result.case c2 r2 c3
        by (cases r3) simp_all
    next
      case (Panic m)
      with t1 [unfolded Return] t2 have "panics_iff_failed w (r2, w2)"
        by (blast intro: panics_iff_failed_Return)
      with Panic show ?thesis
        unfolding update_def Let_def c1 Return prod.case result.case c2 by simp
    next
      case (Overrun m)
      with t2 show ?thesis by (simp add: panics_iff_failed_def)
    qed
  next
    case (Panic m)
    with t1 show ?thesis unfolding update_def Let_def c1 by (simp add: panics_iff_failed_def)
  next
    case (Overrun m)
    with t1 show ?thesis by (simp add: panics_iff_failed_def)
  qed
qed

lemma update_file_trace: "panics_iff_failed w (update_file path content w)"
proof -
  note skip = panics_iff_failed_skip [OF _ _ update_trace]
  obtain r1 w1 where c1: "sys_stat path w = (r1, w1)" by (cases "sys_stat path w")
  from sys_lookup_cases [OF c1 [unfolded sys_stat_def]]
  obtain x1 where t1: "trace w1 = trace w @ [(Stat, path, x1)]" by blast
  have u1: "panics_iff_failed w (update path content w1)"
    by (rule skip [OF t1]) simp
  obtain r2 w2 where c2: "sys_open path w1 = (r2, w2)" by (cases "sys_open path w1")
  from sys_lookup_cases [OF c2 [unfolded sys_open_def]]
  obtain x2 where t2: "trace w2 = trace w1 @ [(Open, path, x2)]" by blast
  have u2: "panics_iff_failed w (update path content w2)"
    by (rule panics_iff_failed_skip [OF t1]) (simp, rule skip [OF t2], simp)
  have all: "panics_iff_failed w (update path content w3)" "panics_iff_failed w (Return (), w3)"
    if "sys_read fd n w2 = (r3, w3)" for fd n r3 w3
  proof -
    from sys_read_cases [OF that] obtain x3 where t3: "trace w3 = trace w2 @ [(Read, fd, x3)]"
      by blast
    show "panics_iff_failed w (update path content w3)"
      by (rule panics_iff_failed_skip [OF t1], simp, rule panics_iff_failed_skip [OF t2], simp,
          rule skip [OF t3], simp)
    from t1 t2 t3 show "panics_iff_failed w (Return (), w3)"
      by (simp add: panics_iff_failed_def)
  qed
  show ?thesis
    unfolding update_file_def c1
    using u1 u2 all
    by (auto simp: c2 split: sum.splits prod.splits)
qed


subsection \<open>Claims about update_file\<close>

text \<open>
  C5 (as amended). In \<open>update_file\<close>, a failed or short write and a failure to create the
  temp file (its \<open>open\<close>, \<open>fchown\<close> or \<open>fchmod\<close>) or to rename it onto the target path each
  end in \<open>panic\<close>; a short read of the existing file does not. \<open>update_file\<close> panics
  when one of the calls that create, write and rename the temp file, as recorded in the
  trace, did not succeed in full, and returns normally when all of them did, whatever the
  \<open>stat\<close>, \<open>open\<close> and \<open>read\<close> of the existing file answered.
\<close>

theorem update_file_panics_iff:
  "if \<exists>ev \<in> set (new_calls w (snd (update_file path content w))). failed_update_call ev
   then \<exists>m. fst (update_file path content w) = Panic m
   else fst (update_file path content w) = Return ()"
  using update_file_trace [of w path content]
  by (cases "fst (update_file path content w)") (auto simp: panics_iff_failed_def new_calls_def)

theorem update_file_panics_iff_witness:
  "(\<exists>ev \<in> set (new_calls w_short_write (snd (update_file uid_path uid_content w_short_write))).
      failed_update_call ev)
   \<and> fst (update_file uid_path uid_content w_short_write) = Panic ''short write to /mnt/etc/tng-base-uid.tmp''
   \<and> \<not> (\<exists>ev \<in> set (new_calls w_short_read (snd (update_file uid_path uid_content w_short_read))).
      failed_update_call ev)
   \<and> fst (update_file uid_path uid_content w_short_read) = Return ()"
proof -
  have 1: "fst (update_file uid_path uid_content w_short_write) = Panic ''short write to /mnt/etc/tng-base-uid.tmp''"
    by (simp add: update_file_def update_def Let_def create_file_def robust_write_def sys_defs
        w_short_write_def uid_path_def uid_content_def ENOENT_def)
  have 2: "\<not> (\<exists>ev \<in> set (new_calls w_short_read (snd (update_file uid_path uid_content w_short_read))).
      failed_update_call ev)"
    by (simp add: update_file_def update_def Let_def create_file_def robust_write_def sys_defs
        stat_of_def new_calls_def w_short_read_def uid_path_def uid_content_def)
  from update_file_panics_iff [of w_short_write uid_path uid_content]
       update_file_panics_iff [of w_short_read uid_path uid_content] 1 2
  show ?thesis by (simp split: if_splits)
qed

text \<open>
  C5 as stated fails for the short read: the file is up to date, the read of it is cut short
  after 3 bytes, and \<open>update_file\<close> rewrites the file and returns.
\<close>

theorem update_file_short_read_returns:
  "(Read, uid_path, Partial 3) \<in> set (trace (snd (update_file uid_path uid_content w_short_read)))
   \<and> fst (update_file uid_path uid_content w_short_read) = Return ()"
  by (simp add: update_file_def update_def Let_def create_file_def robust_write_def sys_defs stat_of_def
      w_short_read_def uid_path_def uid_content_def)

text \<open>
  C6 (as amended). If a regular file of mode 0444 owned by root:root whose bytes are
  \<open>content\<close> is at \<open>path\<close>, and the \<open>stat\<close>, \<open>open\<close> and \<open>read\<close> of it succeed in full,
  \<open>update_file\<close> creates, writes and renames nothing and leaves the file system as it is.
  When no call fails, the second of two calls in a row with the same content is such a
  call, and the two together write exactly once if the file was not up to date before the
  first, and not at all if it was.
\<close>

theorem update_file_idempotent:
  "(up_to_date w path content \<and> read_back_ok w \<longrightarrow>
      (case update_file path content w of (r, w1) \<Rightarrow>
         r = Return () \<and> files w1 = files w
         \<and> (\<forall>ev \<in> set (new_calls w w1). fst ev \<notin> {Creat, Write, Rename})))
   \<and> (script w = [] \<longrightarrow>
      (case update_file path content w of (r1, w1) \<Rightarrow>
         (case update_file path content w1 of (r2, w2) \<Rightarrow>
            r1 = Return () \<and> r2 = Return ()
            \<and> up_to_date w1 path content
            \<and> files w2 = files w1
            \<and> (\<forall>ev \<in> set (new_calls w1 w2). fst ev \<notin> {Creat, Write, Rename})
            \<and> length (filter is_write (new_calls w w2))
                = (if up_to_date w path content then 0 else 1))))"
proof (intro conjI impI)
  assume "up_to_date w path content \<and> read_back_ok w"
  then have "update_file path content w =
      (Return (), w\<lparr>script := drop 3 (script w),
         trace := trace w @ [(Stat, path, Succeed), (Open, path, Succeed), (Read, path, Succeed)]\<rparr>)"
    by (intro update_file_read_back) simp_all
  then show "case update_file path content w of (r, w1) \<Rightarrow>
         r = Return () \<and> files w1 = files w
         \<and> (\<forall>ev \<in> set (new_calls w w1). fst ev \<notin> {Creat, Write, Rename})"
    by (simp add: new_calls_def)
next
  assume s: "script w = []"
  show "case update_file path content w of (r1, w1) \<Rightarrow>
         (case update_file path content w1 of (r2, w2) \<Rightarrow>
            r1 = Return () \<and> r2 = Return ()
            \<and> up_to_date w1 path content
            \<and> files w2 = files w1
            \<and> (\<forall>ev \<in> set (new_calls w1 w2). fst ev \<notin> {Creat, Write, Rename})
            \<and> length (filter is_write (new_calls w w2))
                = (if up_to_date w path content then 0 else 1))"
  proof (cases "up_to_date w path content")
    case True
    let ?w1 = "w\<lparr>trace := trace w @ [(Stat, path, Succeed), (Open, path, Succeed), (Read, path, Succeed)]\<rparr>"
    have 1: "update_file path content w = (Return (), ?w1)"
      by (rule update_file_up_to_date [OF True s])
    have u1: "up_to_date ?w1 path content" and s1: "script ?w1 = []"
      using True s by (simp_all add: up_to_date_def)
    note 2 = update_file_up_to_date [OF u1 s1]
    show ?thesis
      unfolding 1 2 prod.case using True u1 by (simp add: new_calls_def)
  next
    case False
    let ?tmp = "take 255 (path @ ''.tmp'')"
    let ?six = "[(Creat, ?tmp, Succeed), (Fchown, ?tmp, Succeed), (Fchmod, ?tmp, Succeed),
                 (Write, ?tmp, Succeed), (Fsync, ?tmp, Succeed), (Rename, ?tmp, Succeed)]"
    from update_file_stale [OF False s] obtain evs where
      evs: "set evs \<subseteq> {(Stat, path, Fail ENOENT), (Stat, path, Succeed), (Open, path, Succeed), (Read, path, Succeed)}"
      and 1: "update_file path content w =
        (Return (), w\<lparr>files := (files w)(?tmp := None,
                  path \<mapsto> \<lparr>i_perm = mode_0444, i_uid = 0, i_gid = 0, i_data = content\<rparr>),
           trace := trace w @ evs @ ?six\<rparr>)" (is "_ = (_, ?w1)")
      by blast
    have u1: "up_to_date ?w1 path content" and s1: "script ?w1 = []"
      using s by (simp_all add: up_to_date_def)
    note 2 = update_file_up_to_date [OF u1 s1]
    from evs have "filter is_write evs = []"
      by (auto simp: filter_empty_conv)
    then show ?thesis
      unfolding 1 2 prod.case using False u1 by (simp add: new_calls_def)
  qed
qed

theorem update_file_idempotent_witness:
  "up_to_date w_current uid_path uid_content \<and> read_back_ok w_current
   \<and> (case update_file uid_path uid_content w_current of (r, w1) \<Rightarrow>
         r = Return () \<and> files w1 = files w_current
         \<and> (\<forall>ev \<in> set (new_calls w_current w1). fst ev \<notin> {Creat, Write, Rename}))
   \<and> script w_fresh = [] \<and> \<not> up_to_date w_fresh uid_path uid_content
   \<and> (case update_file uid_path uid_content w_fresh of (r1, w1) \<Rightarrow>
         (case update_file uid_path uid_content w1 of (r2, w2) \<Rightarrow>
            r1 = Return () \<and> r2 = Return ()
            \<and> up_to_date w1 uid_path uid_content
            \<and> files w2 = files w1
            \<and> (\<forall>ev \<in> set (new_calls w1 w2). fst ev \<notin> {Creat, Write, Rename})
            \<and> length (filter is_write (new_calls w_fresh w2)) = 1))"
proof -
  have c: "up_to_date w_current uid_path uid_content" "read_back_ok w_current"
    by (simp_all add: up_to_date_def read_back_ok_def w_current_def)
  have f: "script w_fresh = []" "\<not> up_to_date w_fresh uid_path uid_content"
    by (simp_all add: up_to_date_def w_fresh_def)
  from update_file_idempotent [of w_current uid_path uid_content]
       update_file_idempotent [of w_fresh uid_path uid_content] c f
  show ?thesis by simp
qed

text \<open>
  C6 as stated fails. The file is up to date and the read of it is cut short after 3 bytes:
  \<open>update_file\<close> creates the temp file, writes it and renames it. And where the file is up
  to date and every call succeeds, two calls of \<open>update_file\<close> write nothing, not once.
\<close>

theorem update_file_rewrites_after_short_read:
  "up_to_date w_short_read uid_path uid_content
   \<and> filter (\<lambda>ev. fst ev \<in> {Creat, Write, Rename})
        (new_calls w_short_read (snd (update_file uid_path uid_content w_short_read)))
      = [(Creat, ''/mnt/etc/tng-base-uid.tmp'', Succeed),
         (Write, ''/mnt/etc/tng-base-uid.tmp'', Succeed),
         (Rename, ''/mnt/etc/tng-base-uid.tmp'', Succeed)]
   \<and> up_to_date w_current uid_path uid_content
   \<and> filter is_write
        (new_calls w_current
           (snd (update_file uid_path uid_content (snd (update_file uid_path uid_content w_current)))))
      = []"
proof -
  have 1: "up_to_date w_short_read uid_path uid_content"
    by (simp add: up_to_date_def w_short_read_def)
  have 2: "filter (\<lambda>ev. fst ev \<in> {Creat, Write, Rename})
        (new_calls w_short_read (snd (update_file uid_path uid_content w_short_read)))
      = [(Creat, ''/mnt/etc/tng-base-uid.tmp'', Succeed),
         (Write, ''/mnt/etc/tng-base-uid.tmp'', Succeed),
         (Rename, ''/mnt/etc/tng-base-uid.tmp'', Succeed)]"
    by (simp add: update_file_def update_def Let_def create_file_def robust_write_def sys_defs
        stat_of_def new_calls_def w_short_read_def uid_path_def uid_content_def)
  have 3: "up_to_date w_current uid_path uid_content"
    by (simp add: up_to_date_def w_current_def)
  have 4: "filter is_write
        (new_calls w_current
           (snd (update_file uid_path uid_content (snd (update_file uid_path uid_content w_current)))))
      = []"
    by (simp add: update_file_def sys_defs stat_of_def new_calls_def w_current_def
        uid_path_def uid_content_def)
  from 1 2 3 4 show ?thesis by simp
qed

subsection \<open>C strings\<close>

lemma cstr_append: "NUL \<notin> set xs \<Longrightarrow> cstr (xs @ ys) = xs @ cstr ys"
  by (induction xs) (auto simp: cstr_def)

lemma take_prefix_eq:
  assumes "take n xs = ys" and "length ys = n"
  shows "take n (xs @ zs) = ys"
proof -
  from assms have "min (length xs) n = n" by (metis length_take)
  then have "n \<le> length xs" by simp
  with assms show ?thesis by simp
qed

lemma take_drop_prefix_eq:
  assumes "take n (drop j xs) = ys" and "length ys = n"
  shows "take n (drop j (xs @ zs)) = ys"
  using take_prefix_eq [OF assms, of "drop (j - length xs) zs"] by simp

lemma take_Suc_drop:
  assumes "take (Suc n) (drop j xs) = y # ys"
  shows "xs ! j = y \<and> take n (drop (Suc j) xs) = ys"
proof -
  from assms have "drop j xs \<noteq> []" by auto
  then have "j < length xs" by simp
  then have "drop j xs = xs ! j # drop (Suc j) xs" by (simp add: Cons_nth_drop_Suc)
  with assms show ?thesis by simp
qed

lemma cstr_prefix: "\<exists>zs. s = cstr s @ zs"
  unfolding cstr_def by (metis takeWhile_dropWhile_id)

lemma NUL_not_in [simp]: "NUL \<notin> set ''tng:''" "NUL \<notin> set ''tng:!''" "NUL \<noteq> CHR '':''"
  "NUL \<noteq> CHR ''!''" "NUL \<noteq> CHR 0x0A" "NUL \<noteq> CHR ''t''" "NUL \<noteq> CHR ''n''" "NUL \<noteq> CHR ''g''"
  by (simp_all add: NUL_def)

lemma strchr_idx_first: "c \<notin> set xs \<Longrightarrow> strchr_idx (xs @ c # ys) c = Some (length xs)"
  by (induction xs) auto

lemma strrchr_idx_None: "c \<notin> set xs \<Longrightarrow> strrchr_idx xs c = None"
  by (induction xs) auto

lemma strrchr_idx_last: "c \<notin> set ys \<Longrightarrow> strrchr_idx (xs @ c # ys) c = Some (length xs)"
  by (induction xs) (auto simp: strrchr_idx_None)

lemma strrchr_idx_Some:
  "strrchr_idx xs c = Some i \<Longrightarrow> i < length xs \<and> xs ! i = c \<and> c \<notin> set (drop (Suc i) xs)"
proof (induction xs arbitrary: i)
  case Nil
  then show ?case by simp
next
  case (Cons x xs)
  show ?case
  proof (cases "strrchr_idx xs c")
    case None
    have "c \<notin> set xs"
    proof
      assume "c \<in> set xs"
      then obtain ys zs where "xs = ys @ c # zs" "c \<notin> set zs"
        by (meson split_list_last)
      with strrchr_idx_last [of c zs ys] None show False by simp
    qed
    with Cons.prems None show ?thesis by (auto split: if_splits)
  next
    case (Some j)
    with Cons.prems have "i = Suc j" by simp
    with Cons.IH [OF Some] show ?thesis by simp
  qed
qed

lemma strrchr_idx_in: "c \<in> set xs \<Longrightarrow> \<exists>i. strrchr_idx xs c = Some i"
proof -
  assume "c \<in> set xs"
  then obtain ys zs where "xs = ys @ c # zs" "c \<notin> set zs"
    by (meson split_list_last)
  with strrchr_idx_last [of c zs ys] show ?thesis by simp
qed

lemma strstr_idx_first:
  assumes "\<forall>j < length xs. take (length needle) (drop j (xs @ needle @ ys)) \<noteq> needle"
  shows "strstr_idx (xs @ needle @ ys) needle = Some (length xs)"
  using assms
proof (induction xs)
  case Nil
  have t: "take (length needle) (needle @ ys) = needle" by simp
  show ?case
  proof (cases "needle @ ys")
    case Nil
    then show ?thesis by simp
  next
    case (Cons a l)
    from t [unfolded Cons] show ?thesis by (simp add: Cons)
  qed
next
  case (Cons x xs)
  from Cons.prems have "take (length needle) (drop 0 ((x # xs) @ needle @ ys)) \<noteq> needle"
    by blast
  then have 0: "take (length needle) (x # xs @ needle @ ys) \<noteq> needle" by simp
  have "\<forall>j < length xs. take (length needle) (drop j (xs @ needle @ ys)) \<noteq> needle"
  proof (intro allI impI)
    fix j assume "j < length xs"
    then have "Suc j < length (x # xs)" by simp
    with Cons.prems have "take (length needle) (drop (Suc j) ((x # xs) @ needle @ ys)) \<noteq> needle"
      by blast
    then show "take (length needle) (drop j (xs @ needle @ ys)) \<noteq> needle" by simp
  qed
  from Cons.IH [OF this] 0 show ?case by simp
qed

subsection \<open>Finding the entry\<close>

text \<open>The situation of the claims: the file is \<open>pre @ ''tng:!'' @ hash @ '':'' @ rest\<close>, the
  entry at \<open>length pre\<close> is the first one, and no null byte comes before the colon that
  ends the hash value.\<close>

lemma find_entry:
  fixes pre hash rest :: string
  defines "buffer \<equiv> pre @ ''tng:!'' @ hash @ '':'' @ rest"
  assumes first: "first_entry buffer (length pre)"
    and nul: "NUL \<notin> set pre" "NUL \<notin> set hash"
  shows "(if strncmp_eq buffer 0 (ACCOUNT_NAME @ '':'') then Some 0
          else map_option Suc (strstr buffer 0 (CHR 0x0A # ACCOUNT_NAME @ '':'')))
         = Some (length pre)"
proof (cases "pre = []")
  case True
  then show ?thesis
    by (simp add: strncmp_eq_def buffer_def ACCOUNT_NAME_def cstr_def NUL_def)
next
  case False
  from first have at: "entry_at buffer (length pre)"
    and none: "\<And>j. j < length pre \<Longrightarrow> \<not> entry_at buffer j"
    by (auto simp: first_entry_def list_all_iff)
  from False at have nl: "last pre = CHR 0x0A"
    by (simp add: entry_at_def buffer_def nth_append last_conv_nth)
  with False obtain p where pre: "pre = p @ [CHR 0x0A]"
    by (metis append_butlast_last_id)
  have c: "cstr buffer = p @ (CHR 0x0A # ''tng:'') @ (''!'' @ hash @ '':'' @ cstr rest)"
    using nul cstr_append [of "pre @ ''tng:!'' @ hash @ '':''" rest]
    by (simp add: buffer_def pre)
  obtain zs where zs: "buffer = cstr buffer @ zs" using cstr_prefix by blast
  from none [of 0] False have "\<not> entry_at buffer 0" by simp
  then have n0: "take 4 buffer \<noteq> ''tng:''" by (simp add: entry_at_def)
  have "take 4 (cstr buffer) \<noteq> ''tng:''"
  proof
    assume a: "take 4 (cstr buffer) = ''tng:''"
    from take_prefix_eq [OF this, of zs] zs have "take 4 buffer = take 4 (cstr buffer)"
      by (simp add: a)
    with a n0 show False by simp
  qed
  then have s0: "\<not> strncmp_eq buffer 0 (ACCOUNT_NAME @ '':'')"
    by (simp add: strncmp_eq_def ACCOUNT_NAME_def eval_nat_numeral)
  have "strstr_idx (cstr buffer) (CHR 0x0A # ''tng:'') = Some (length p)"
    unfolding c
  proof (rule strstr_idx_first, intro allI impI)
    fix j assume j: "j < length p"
    show "take (length (CHR 0x0A # ''tng:'')) (drop j (p @ (CHR 0x0A # ''tng:'') @ ''!'' @ hash @ '':'' @ cstr rest))
          \<noteq> CHR 0x0A # ''tng:''"
    proof
      assume a: "take (length (CHR 0x0A # ''tng:'')) (drop j (p @ (CHR 0x0A # ''tng:'') @ ''!'' @ hash @ '':'' @ cstr rest))
          = CHR 0x0A # ''tng:''"
      have ln: "length (CHR 0x0A # ''tng:'') = Suc 4" by simp
      from a have "take (Suc 4) (drop j (cstr buffer)) = CHR 0x0A # ''tng:''"
        unfolding c ln .
      from take_drop_prefix_eq [OF this ln, of zs] zs
      have t: "take (Suc 4) (drop j buffer) = CHR 0x0A # ''tng:''" by simp
      from take_Suc_drop [OF this]
      have "buffer ! j = CHR 0x0A \<and> take 4 (drop (Suc j) buffer) = ''tng:''" .
      then have "entry_at buffer (Suc j)" by (simp add: entry_at_def)
      moreover from j have "Suc j < length pre" by (simp add: pre)
      ultimately show False using none by blast
    qed
  qed
  with s0 show ?thesis
    by (simp add: strstr_def ACCOUNT_NAME_def pre)
qed


lemma replace_entry_at:
  fixes pre hash rest :: string
  defines "buffer \<equiv> pre @ ''tng:!'' @ hash @ '':'' @ rest"
  assumes first: "first_entry buffer (length pre)"
    and nul: "NUL \<notin> set pre" "NUL \<notin> set hash"
    and colon: "CHR '':'' \<notin> set hash"
  shows "replace_entry crypt_r g st buffer w =
     (if length hash > SHADOW_ENCRYPTED_LENGTH
      then (Panic ''encrypted section for account tng is too big'', w)
      else if length hash = SHADOW_ENCRYPTED_LENGTH then (Overrun ''encrypted[512]'', w)
      else
        (case get_salt hash of
           Panic m \<Rightarrow> (Panic m, w)
         | Overrun m \<Rightarrow> (Overrun m, w)
         | Return salt \<Rightarrow>
            (case crypt_r DEFAULT_PASSWORD salt of
               Inl e \<Rightarrow> (Panic ''could not encrypt default password'', log_call Crypt salt (Fail e) w)
             | Inr c \<Rightarrow>
                 if cstr c \<noteq> hash then (Return (), log_call Crypt salt Succeed w)
                 else write_shadow g st buffer (length pre + 4) (length pre + 5 + length hash)
                        (log_call Crypt salt Succeed w))))"
proof -
  have e: "(if strncmp_eq buffer 0 (ACCOUNT_NAME @ '':'') then Some 0
            else map_option Suc (strstr buffer 0 (CHR 0x0A # ACCOUNT_NAME @ '':'')))
           = Some (length pre)"
    unfolding buffer_def by (rule find_entry [OF first [unfolded buffer_def] nul])
  have d0: "drop (length pre) buffer = ''tng'' @ CHR '':'' # (''!'' @ hash @ '':'' @ rest)"
    by (simp add: buffer_def)
  have "cstr (drop (length pre) buffer) = ''tng'' @ CHR '':'' # cstr (''!'' @ hash @ '':'' @ rest)"
    unfolding d0 using cstr_append [of "''tng:''" "''!'' @ hash @ '':'' @ rest"] by simp
  moreover have "strchr_idx (''tng'' @ CHR '':'' # cstr (''!'' @ hash @ '':'' @ rest)) (CHR '':'')
                 = Some (length ''tng'')"
    by (rule strchr_idx_first) simp
  ultimately have c1: "strchr buffer (length pre) (CHR '':'') = Some (length pre + 3)"
    by (simp add: strchr_def)
  have ch: "char_at buffer (length pre + 3 + 1) = CHR ''!''"
    by (simp add: char_at_def buffer_def nth_append)
  have d4: "drop (length pre + 3 + 1) buffer = (CHR ''!'' # hash) @ CHR '':'' # rest"
    by (simp add: buffer_def)
  have "cstr (drop (length pre + 3 + 1) buffer) = (CHR ''!'' # hash) @ CHR '':'' # cstr rest"
    unfolding d4 using nul cstr_append [of "CHR ''!'' # hash @ '':''" rest] by simp
  moreover have "strchr_idx ((CHR ''!'' # hash) @ CHR '':'' # cstr rest) (CHR '':'')
                 = Some (length (CHR ''!'' # hash))"
    by (rule strchr_idx_first) (use colon in simp)
  ultimately have c2: "strchr buffer (length pre + 3 + 1) (CHR '':'')
                       = Some (length pre + 3 + 1 + (1 + length hash))"
    by (simp add: strchr_def)
  have used: "length pre + 3 + 1 + (1 + length hash) - (length pre + 3 + 1 + 1) = length hash"
    by simp
  have enc: "take (length hash) (drop (length pre + 3 + 1 + 1) buffer) = hash"
    by (simp add: buffer_def)
  have i1: "length pre + 3 + 1 = length pre + 4"
    and i2: "length pre + 4 + (1 + length hash) = length pre + 5 + length hash"
    by simp_all
  have "CHR ''!'' \<noteq> CHR ''*''" by simp
  then have "replace_entry crypt_r g st buffer w =
     (if length hash > SHADOW_ENCRYPTED_LENGTH
      then (Panic ''encrypted section for account tng is too big'', w)
      else if length hash = SHADOW_ENCRYPTED_LENGTH then (Overrun ''encrypted[512]'', w)
      else
        (case get_salt hash of
           Panic m \<Rightarrow> (Panic m, w)
         | Overrun m \<Rightarrow> (Overrun m, w)
         | Return salt \<Rightarrow>
            (case crypt_r DEFAULT_PASSWORD salt of
               Inl e \<Rightarrow> (Panic ''could not encrypt default password'', log_call Crypt salt (Fail e) w)
             | Inr c \<Rightarrow>
                 if cstr c \<noteq> hash then (Return (), log_call Crypt salt Succeed w)
                 else write_shadow g st buffer (length pre + 3 + 1) (length pre + 3 + 1 + (1 + length hash))
                        (log_call Crypt salt Succeed w))))"
    unfolding replace_entry_def e option.case c1 Let_def ch c2 used enc
    by (simp cong: result.case_cong sum.case_cong if_cong)
  then show ?thesis unfolding i1 i2 .
qed


lemma perm_bits_S_IFREG: "perm_bits (S_IFREG + p) = perm_bits p"
proof -
  have "(8 * 8 ^ 4 + p) mod 8 ^ 4 = p mod (8 ^ 4 :: nat)" by (rule mod_mult_self3)
  then show ?thesis unfolding perm_bits_def S_IFREG_def .
qed


lemma shadow_paths [simp]:
  "SHADOW_BACKUP_PATH \<noteq> SHADOW_PATH" "SHADOW_TMP_PATH \<noteq> SHADOW_PATH"
  "SHADOW_TMP_PATH \<noteq> SHADOW_BACKUP_PATH" "SHADOW_PATH \<noteq> SHADOW_BACKUP_PATH"
  "SHADOW_PATH \<noteq> SHADOW_TMP_PATH" "SHADOW_BACKUP_PATH \<noteq> SHADOW_TMP_PATH"
  by (simp_all add: SHADOW_BACKUP_PATH_def SHADOW_TMP_PATH_def)


text \<open>The end of \<open>replace_password\<close> when no call fails.\<close>

lemma write_shadow_calm:
  assumes "script w = []"
  shows "write_shadow g st buffer eb ee w =
    (Return (),
     w\<lparr>files := (files w)
         (SHADOW_BACKUP_PATH \<mapsto>
            \<lparr>i_perm = perm_bits (st_mode st), i_uid = st_uid st, i_gid = st_gid st, i_data = buffer\<rparr>,
          SHADOW_TMP_PATH := None,
          SHADOW_PATH \<mapsto>
            \<lparr>i_perm = perm_bits (st_mode st), i_uid = st_uid st, i_gid = st_gid st,
               i_data = take eb buffer @ field_string (encrypted_password (data_v1 (eeprom g)))
                        @ drop ee buffer\<rparr>),
       trace := trace w @
         [(Creat, SHADOW_BACKUP_PATH, Succeed), (Fchown, SHADOW_BACKUP_PATH, Succeed),
          (Fchmod, SHADOW_BACKUP_PATH, Succeed), (Write, SHADOW_BACKUP_PATH, Succeed),
          (Fsync, SHADOW_BACKUP_PATH, Succeed),
          (Creat, SHADOW_TMP_PATH, Succeed), (Fchown, SHADOW_TMP_PATH, Succeed),
          (Fchmod, SHADOW_TMP_PATH, Succeed), (Write, SHADOW_TMP_PATH, Succeed),
          (Write, SHADOW_TMP_PATH, Succeed), (Write, SHADOW_TMP_PATH, Succeed),
          (Fsync, SHADOW_TMP_PATH, Succeed), (Rename, SHADOW_TMP_PATH, Succeed)]\<rparr>)"
proof -
  let ?B = SHADOW_BACKUP_PATH and ?T = SHADOW_TMP_PATH
  let ?i = "\<lparr>i_perm = perm_bits (st_mode st), i_uid = st_uid st, i_gid = st_gid st, i_data = []\<rparr>"
  let ?pw = "field_string (encrypted_password (data_v1 (eeprom g)))"
  note c1 = create_file_calm [OF assms, of ?B "st_uid st" "st_gid st" "st_mode st"]
  let ?w1 = "w\<lparr>files := (files w)(?B \<mapsto> ?i),
       trace := trace w @ [(Creat, ?B, Succeed), (Fchown, ?B, Succeed), (Fchmod, ?B, Succeed)]\<rparr>"
  have s1: "script ?w1 = []" using assms by simp
  have f1: "files ?w1 ?B = Some ?i" by simp
  note r1 = robust_write_calm [OF s1 f1, of ?B buffer]
  let ?w2 = "sys_fsync ?B (?w1\<lparr>files := (files ?w1)(?B \<mapsto> ?i\<lparr>i_data := i_data ?i @ buffer\<rparr>),
                 trace := trace ?w1 @ [(Write, ?B, Succeed)]\<rparr>)"
  have s2: "script ?w2 = []" using assms by (simp add: sys_fsync_def log_call_def)
  note c2 = create_file_calm [OF s2, of ?T "st_uid st" "st_gid st" "st_mode st"]
  let ?w3 = "?w2\<lparr>files := (files ?w2)(?T \<mapsto> ?i),
       trace := trace ?w2 @ [(Creat, ?T, Succeed), (Fchown, ?T, Succeed), (Fchmod, ?T, Succeed)]\<rparr>"
  have s3: "script ?w3 = []" using s2 by simp
  have f3: "files ?w3 ?T = Some ?i" by simp
  note r3 = robust_write_calm [OF s3 f3, of ?T "take eb buffer"]
  let ?i4 = "?i\<lparr>i_data := i_data ?i @ take eb buffer\<rparr>"
  let ?w4 = "?w3\<lparr>files := (files ?w3)(?T \<mapsto> ?i4), trace := trace ?w3 @ [(Write, ?T, Succeed)]\<rparr>"
  have s4: "script ?w4 = []" using s3 by simp
  have f4: "files ?w4 ?T = Some ?i4" by simp
  note r4 = robust_write_calm [OF s4 f4, of ?T ?pw]
  let ?i5 = "?i4\<lparr>i_data := i_data ?i4 @ ?pw\<rparr>"
  let ?w5 = "?w4\<lparr>files := (files ?w4)(?T \<mapsto> ?i5), trace := trace ?w4 @ [(Write, ?T, Succeed)]\<rparr>"
  have s5: "script ?w5 = []" using s4 by simp
  have f5: "files ?w5 ?T = Some ?i5" by simp
  note r5 = robust_write_calm [OF s5 f5, of ?T "drop ee buffer"]
  show ?thesis
    unfolding write_shadow_def c1 prod.case result.case r1 Let_def c2 r3 r4 r5
    using assms
    by (simp add: sys_fsync_def sys_rename_def next_io_def log_call_def fun_upd_twist)
qed


text \<open>\<open>replace_password\<close> up to the parsing of the file, when no call fails.\<close>

lemma replace_password_calm:
  assumes "eeprom_valid g" and "\<not> data_version (header (eeprom g)) < 1"
    and "script w = []" and "files w SHADOW_PATH = Some f"
    and "length (i_data f) \<le> SHADOW_BUFFER_LENGTH"
  shows "replace_password crypt_r g w =
     replace_entry crypt_r g (stat_of f) (i_data f)
       (w\<lparr>trace := trace w @ [(Open, SHADOW_PATH, Succeed), (Fstat, SHADOW_PATH, Succeed),
                               (Malloc, [], Succeed), (Read, SHADOW_PATH, Succeed)]\<rparr>)"
  using assms
  by (simp add: replace_password_def sys_open_def sys_fstat_def sys_lookup_def sys_malloc_def
      sys_read_def next_io_def log_call_def stat_of_def Let_def)


text \<open>\<open>replace_password\<close> on a file with a locked entry for the account, when no call
  fails.\<close>

lemma replace_password_entry:
  assumes valid: "eeprom_valid g" "\<not> data_version (header (eeprom g)) < 1"
    and calm: "script w = []"
    and shadow: "files w SHADOW_PATH = Some f" "length (i_data f) \<le> SHADOW_BUFFER_LENGTH"
    and entry: "i_data f = pre @ ''tng:!'' @ hash @ '':'' @ rest"
      "first_entry (i_data f) (length pre)"
      "NUL \<notin> set pre" "NUL \<notin> set hash" "CHR '':'' \<notin> set hash"
  defines "w4 \<equiv> w\<lparr>trace := trace w @ [(Open, SHADOW_PATH, Succeed), (Fstat, SHADOW_PATH, Succeed),
                               (Malloc, [], Succeed), (Read, SHADOW_PATH, Succeed)]\<rparr>"
  shows "replace_password crypt_r g w =
     (if length hash > SHADOW_ENCRYPTED_LENGTH
      then (Panic ''encrypted section for account tng is too big'', w4)
      else if length hash = SHADOW_ENCRYPTED_LENGTH then (Overrun ''encrypted[512]'', w4)
      else
        (case get_salt hash of
           Panic m \<Rightarrow> (Panic m, w4)
         | Overrun m \<Rightarrow> (Overrun m, w4)
         | Return salt \<Rightarrow>
            (case crypt_r DEFAULT_PASSWORD salt of
               Inl e \<Rightarrow> (Panic ''could not encrypt default password'', log_call Crypt salt (Fail e) w4)
             | Inr c \<Rightarrow>
                 if cstr c \<noteq> hash then (Return (), log_call Crypt salt Succeed w4)
                 else write_shadow g (stat_of f) (i_data f) (length pre + 4) (length pre + 5 + length hash)
                        (log_call Crypt salt Succeed w4))))"
  unfolding replace_password_calm [OF valid calm shadow] w4_def [symmetric]
  unfolding entry(1)
  by (rule replace_entry_at [OF entry(2) [unfolded entry(1)] entry(3-5)])

lemma get_salt_cases:
  assumes "2 \<le> length hash"
  shows "\<exists>salt. get_salt hash = Return salt
     \<and> (hash ! 0 \<noteq> CHR ''$'' \<longrightarrow> salt = take 2 hash)
     \<and> (hash ! 0 = CHR ''$'' \<longrightarrow>
          (\<exists>i < length hash. salt = take i hash \<and> hash ! i = CHR ''$''
              \<and> CHR ''$'' \<notin> set (drop (Suc i) hash)))"
proof (cases "hash ! 0 = CHR ''$''")
  case False
  with assms show ?thesis by (simp add: get_salt_def)
next
  case True
  from assms have "hash \<noteq> []" by auto
  with True have "CHR ''$'' \<in> set hash" by (metis length_greater_0_conv nth_mem)
  from strrchr_idx_in [OF this] obtain i where i: "strrchr_idx hash (CHR ''$'') = Some i" by blast
  from strrchr_idx_Some [OF i] True assms i show ?thesis
    by (auto simp: get_salt_def)
qed

lemma get_salt_short: "length hash < 2 \<Longrightarrow> get_salt hash = Panic ''encrypted section for account tng is malformed''"
  by (simp add: get_salt_def)


text \<open>The migration itself: the outcome of \<open>replace_password\<close> when the hash value is
  that of the default password.\<close>

lemma replace_password_default:
  assumes valid: "eeprom_valid g" "\<not> data_version (header (eeprom g)) < 1"
    and calm: "script w = []"
    and shadow: "files w SHADOW_PATH = Some f" "length (i_data f) \<le> SHADOW_BUFFER_LENGTH"
    and entry: "i_data f = pre @ ''tng:!'' @ hash @ '':'' @ rest"
      "first_entry (i_data f) (length pre)"
      "NUL \<notin> set pre" "NUL \<notin> set hash" "CHR '':'' \<notin> set hash"
    and len: "length hash < SHADOW_ENCRYPTED_LENGTH"
    and salt: "get_salt hash = Return salt"
    and c: "crypt_r DEFAULT_PASSWORD salt = Inr c" "cstr c = hash"
  shows "replace_password crypt_r g w =
        (Return (),
         w\<lparr>files := (files w)
             (SHADOW_BACKUP_PATH \<mapsto> f\<lparr>i_perm := perm_bits (i_perm f)\<rparr>,
              SHADOW_TMP_PATH := None,
              SHADOW_PATH \<mapsto>
                \<lparr>i_perm = perm_bits (i_perm f), i_uid = i_uid f, i_gid = i_gid f,
                   i_data = pre @ ''tng:'' @ field_string (encrypted_password (data_v1 (eeprom g)))
                            @ '':'' @ rest\<rparr>),
           trace := trace w @
             [(Open, SHADOW_PATH, Succeed), (Fstat, SHADOW_PATH, Succeed), (Malloc, [], Succeed),
              (Read, SHADOW_PATH, Succeed), (Crypt, salt, Succeed),
              (Creat, SHADOW_BACKUP_PATH, Succeed), (Fchown, SHADOW_BACKUP_PATH, Succeed),
              (Fchmod, SHADOW_BACKUP_PATH, Succeed), (Write, SHADOW_BACKUP_PATH, Succeed),
              (Fsync, SHADOW_BACKUP_PATH, Succeed),
              (Creat, SHADOW_TMP_PATH, Succeed), (Fchown, SHADOW_TMP_PATH, Succeed),
              (Fchmod, SHADOW_TMP_PATH, Succeed), (Write, SHADOW_TMP_PATH, Succeed),
              (Write, SHADOW_TMP_PATH, Succeed), (Write, SHADOW_TMP_PATH, Succeed),
              (Fsync, SHADOW_TMP_PATH, Succeed), (Rename, SHADOW_TMP_PATH, Succeed)]\<rparr>)"
proof -
  let ?w5 = "w\<lparr>trace := trace w @ [(Open, SHADOW_PATH, Succeed), (Fstat, SHADOW_PATH, Succeed),
                               (Malloc, [], Succeed), (Read, SHADOW_PATH, Succeed),
                               (Crypt, salt, Succeed)]\<rparr>"
  have sc: "script ?w5 = []" using calm by simp
  have rp: "replace_password crypt_r g w
        = write_shadow g (stat_of f) (i_data f) (length pre + 4) (length pre + 5 + length hash) ?w5"
    using len c by (simp add: replace_password_entry [OF valid calm shadow entry] salt log_call_def)
  have t: "take (length pre + 4) (i_data f) = pre @ ''tng:''"
    by (simp add: entry(1))
  have "length (pre @ ''tng:!'' @ hash) = length pre + 5 + length hash" by simp
  with append_eq_conv_conj [of "pre @ ''tng:!'' @ hash" "'':'' @ rest" "i_data f"] entry(1)
  have d: "drop (length pre + 5 + length hash) (i_data f) = '':'' @ rest"
    by (metis append.assoc)
  show ?thesis
    unfolding rp write_shadow_calm [OF sc] t d
    by (cases f) (simp add: stat_of_def perm_bits_S_IFREG)
qed

text \<open>Any other hash value: the world changes by its trace only.\<close>

lemma replace_password_not_default:
  assumes valid: "eeprom_valid g" "\<not> data_version (header (eeprom g)) < 1"
    and calm: "script w = []"
    and shadow: "files w SHADOW_PATH = Some f" "length (i_data f) \<le> SHADOW_BUFFER_LENGTH"
    and entry: "i_data f = pre @ ''tng:!'' @ hash @ '':'' @ rest"
      "first_entry (i_data f) (length pre)"
      "NUL \<notin> set pre" "NUL \<notin> set hash" "CHR '':'' \<notin> set hash"
    and n: "\<not> has_default_password crypt_r hash"
  shows "\<exists>r evs. replace_password crypt_r g w =
           (r, w\<lparr>trace := trace w @ [(Open, SHADOW_PATH, Succeed), (Fstat, SHADOW_PATH, Succeed),
                                      (Malloc, [], Succeed), (Read, SHADOW_PATH, Succeed)] @ evs\<rparr>)
         \<and> (\<forall>ev \<in> set evs. fst ev = Crypt)"
proof -
  note rp = replace_password_entry [OF valid calm shadow entry, of crypt_r]
  let ?four = "[(Open, SHADOW_PATH, Succeed), (Fstat, SHADOW_PATH, Succeed),
                (Malloc, [], Succeed), (Read, SHADOW_PATH, Succeed)]"
  have none: "\<exists>r evs. (x, w\<lparr>trace := trace w @ ?four\<rparr>) = (r, w\<lparr>trace := trace w @ ?four @ evs\<rparr>)
         \<and> (\<forall>ev \<in> set evs. fst ev = Crypt)" for x :: "unit result"
    by (intro exI [of _ x] exI [of _ "[]"]) simp
  have one: "\<exists>r evs. (x, log_call Crypt s a (w\<lparr>trace := trace w @ ?four\<rparr>))
            = (r, w\<lparr>trace := trace w @ ?four @ evs\<rparr>)
         \<and> (\<forall>ev \<in> set evs. fst ev = Crypt)" for x :: "unit result" and s a
    by (intro exI [of _ x] exI [of _ "[(Crypt, s, a)]"]) (simp add: log_call_def)
  show ?thesis
  proof (cases "length hash > SHADOW_ENCRYPTED_LENGTH")
    case True
    then show ?thesis unfolding rp using none by simp
  next
    case le: False
    show ?thesis
    proof (cases "length hash = SHADOW_ENCRYPTED_LENGTH")
      case True
      then show ?thesis unfolding rp using none by simp
    next
      case ne: False
      show ?thesis
      proof (cases "get_salt hash")
        case (Panic m)
        with le ne show ?thesis unfolding rp using none by simp
      next
        case (Overrun m)
        with le ne show ?thesis unfolding rp using none by simp
      next
        case (Return salt)
        show ?thesis
        proof (cases "crypt_r DEFAULT_PASSWORD salt")
          case (Inl e)
          with le ne Return show ?thesis unfolding rp using one by simp
        next
          case (Inr c)
          with n Return have "cstr c \<noteq> hash" by (simp add: has_default_password_def)
          with le ne Return Inr show ?thesis unfolding rp using one by simp
        qed
      qed
    qed
  qed
qed

subsection \<open>The example password files\<close>

lemma g_device_valid: "eeprom_valid g_device" "\<not> data_version (header (eeprom g_device)) < 1"
  by (simp_all add: g_device_def)

lemma device_password_string: "field_string (encrypted_password (data_v1 (eeprom g_device))) = ''$6$xy$DEV''"
  by (simp add: g_device_def field_string_def device_password_def char_of_def bit_0)

lemma shadow_world_simps:
  "script (shadow_world t) = []"
  "trace (shadow_world t) = []"
  "files (shadow_world t) SHADOW_PATH = Some (shadow_inode t)"
  by (simp_all add: shadow_world_def)

lemma shadow_sizes:
  "length (i_data (shadow_inode shadow_default)) \<le> SHADOW_BUFFER_LENGTH"
  "length (i_data (shadow_inode shadow_other)) \<le> SHADOW_BUFFER_LENGTH"
  "length (i_data (shadow_inode shadow_short)) \<le> SHADOW_BUFFER_LENGTH"
  by (simp_all add: shadow_inode_def shadow_default_def shadow_other_def shadow_short_def
      root_line_def rest_line_def default_hash_def SHADOW_BUFFER_LENGTH_def)

lemma shadow_texts:
  "i_data (shadow_inode shadow_default) = root_line @ ''tng:!'' @ default_hash @ '':'' @ rest_line"
  "i_data (shadow_inode shadow_other) = root_line @ ''tng:!'' @ ''$6$abc$other'' @ '':'' @ rest_line"
  "i_data (shadow_inode shadow_short) = root_line @ ''tng:!'' @ ''x'' @ '':'' @ rest_line"
  by (simp_all add: shadow_inode_def shadow_default_def shadow_other_def shadow_short_def)

lemma shadow_first_entry:
  "first_entry (i_data (shadow_inode shadow_default)) (length root_line)"
  "first_entry (i_data (shadow_inode shadow_other)) (length root_line)"
  "first_entry (i_data (shadow_inode shadow_short)) (length root_line)"
  by (simp_all add: shadow_inode_def first_entry_def entry_at_def shadow_default_def shadow_other_def
      shadow_short_def root_line_def default_hash_def rest_line_def
      upt_rec [of 0] upt_rec [of "Suc _"] upt_rec [of "numeral _"])

lemma default_hash_length:
  "2 \<le> length default_hash" "length default_hash < SHADOW_ENCRYPTED_LENGTH"
  "length ''$6$abc$other'' < SHADOW_ENCRYPTED_LENGTH"
  by (simp_all add: default_hash_def SHADOW_ENCRYPTED_LENGTH_def)

lemma shadow_chars:
  "NUL \<notin> set root_line" "NUL \<notin> set default_hash" "CHR '':'' \<notin> set default_hash"
  "NUL \<notin> set ''$6$abc$other''" "CHR '':'' \<notin> set ''$6$abc$other''"
  "NUL \<notin> set ''x''" "CHR '':'' \<notin> set ''x''"
  by (simp_all add: root_line_def default_hash_def NUL_def)

lemma example_salts:
  "get_salt default_hash = Return ''$6$abc''" "get_salt ''$6$abc$other'' = Return ''$6$abc''"
  by (simp_all add: get_salt_def default_hash_def)

lemma toy_crypt_default:
  "toy_crypt DEFAULT_PASSWORD ''$6$abc'' = Inr default_hash" "cstr default_hash = default_hash"
  by (simp_all add: toy_crypt_def cstr_def NUL_def DEFAULT_PASSWORD_def default_hash_def)

lemma example_default: "has_default_password toy_crypt default_hash"
  "\<not> has_default_password toy_crypt ''$6$abc$other''"
proof -
  show "has_default_password toy_crypt default_hash"
    by (simp add: has_default_password_def example_salts toy_crypt_default)
  have "cstr default_hash \<noteq> ''$6$abc$other''"
    unfolding toy_crypt_default by (simp add: default_hash_def)
  then show "\<not> has_default_password toy_crypt ''$6$abc$other''"
    by (simp add: has_default_password_def example_salts toy_crypt_default)
qed


text \<open>The outcome of the migration on the example file with the default password.\<close>

lemmas example_migration =
  replace_password_default [where crypt_r = toy_crypt, OF g_device_valid shadow_world_simps(1) shadow_world_simps(3)
    shadow_sizes(1) shadow_texts(1) shadow_first_entry(1) shadow_chars(1-3) default_hash_length(2)
    example_salts(1) toy_crypt_default]

subsection \<open>Claims about replace_password\<close>

lemma filter_is_crypt_write_shadow [simp]:
  "filter is_crypt
     [(Creat, SHADOW_BACKUP_PATH, Succeed), (Fchown, SHADOW_BACKUP_PATH, Succeed),
      (Fchmod, SHADOW_BACKUP_PATH, Succeed), (Write, SHADOW_BACKUP_PATH, Succeed),
      (Fsync, SHADOW_BACKUP_PATH, Succeed),
      (Creat, SHADOW_TMP_PATH, Succeed), (Fchown, SHADOW_TMP_PATH, Succeed),
      (Fchmod, SHADOW_TMP_PATH, Succeed), (Write, SHADOW_TMP_PATH, Succeed),
      (Write, SHADOW_TMP_PATH, Succeed), (Write, SHADOW_TMP_PATH, Succeed),
      (Fsync, SHADOW_TMP_PATH, Succeed), (Rename, SHADOW_TMP_PATH, Succeed)] = []"
  by simp

text \<open>
  C3 (as amended). When the locked hash value of the account does not begin with \<open>$\<close>, the
  salt passed to \<open>crypt_r\<close> is its first two characters; when it does, the salt is the part
  of the hash value before its last \<open>$\<close>, that \<open>$\<close> not included. (The file has a first
  entry \<open>tng:!hash:\<close>, the hash value has between 2 and 511 characters, and no call fails.)
\<close>

theorem replace_password_salt:
  assumes valid: "eeprom_valid g" "\<not> data_version (header (eeprom g)) < 1"
    and calm: "script w = []"
    and shadow: "files w SHADOW_PATH = Some f" "length (i_data f) \<le> SHADOW_BUFFER_LENGTH"
    and entry: "i_data f = pre @ ''tng:!'' @ hash @ '':'' @ rest"
      "first_entry (i_data f) (length pre)"
      "NUL \<notin> set pre" "NUL \<notin> set hash" "CHR '':'' \<notin> set hash"
    and len: "2 \<le> length hash" "length hash < SHADOW_ENCRYPTED_LENGTH"
  shows "\<exists>salt r.
      filter is_crypt (new_calls w (snd (replace_password crypt_r g w))) = [(Crypt, salt, r)]
      \<and> (hash ! 0 \<noteq> CHR ''$'' \<longrightarrow> salt = take 2 hash)
      \<and> (hash ! 0 = CHR ''$'' \<longrightarrow>
           (\<exists>i < length hash. salt = take i hash \<and> hash ! i = CHR ''$''
               \<and> CHR ''$'' \<notin> set (drop (Suc i) hash)))"
proof -
  let ?w4 = "w\<lparr>trace := trace w @ [(Open, SHADOW_PATH, Succeed), (Fstat, SHADOW_PATH, Succeed),
                               (Malloc, [], Succeed), (Read, SHADOW_PATH, Succeed)]\<rparr>"
  from get_salt_cases [OF len(1)] obtain salt where
    salt: "get_salt hash = Return salt"
    and s1: "hash ! 0 \<noteq> CHR ''$'' \<longrightarrow> salt = take 2 hash"
    and s2: "hash ! 0 = CHR ''$'' \<longrightarrow>
          (\<exists>i < length hash. salt = take i hash \<and> hash ! i = CHR ''$''
              \<and> CHR ''$'' \<notin> set (drop (Suc i) hash))"
    by blast
  note rp = replace_password_entry [OF valid calm shadow entry, of crypt_r, unfolded salt result.case]
  let ?w5 = "w\<lparr>trace := trace w @ [(Open, SHADOW_PATH, Succeed), (Fstat, SHADOW_PATH, Succeed),
                               (Malloc, [], Succeed), (Read, SHADOW_PATH, Succeed),
                               (Crypt, salt, Succeed)]\<rparr>"
  have sc: "script ?w5 = []" using calm by simp
  have "\<exists>r. filter is_crypt (new_calls w (snd (replace_password crypt_r g w))) = [(Crypt, salt, r)]"
  proof (cases "crypt_r DEFAULT_PASSWORD salt")
    case (Inl e)
    with len(2) show ?thesis
      by (simp add: rp new_calls_def log_call_def)
  next
    case (Inr c)
    show ?thesis
    proof (cases "cstr c = hash")
      case False
      with Inr len(2) show ?thesis
        by (simp add: rp new_calls_def log_call_def)
    next
      case True
      with Inr len(2) show ?thesis
        by (simp add: rp write_shadow_calm [OF sc] new_calls_def log_call_def)
    qed
  qed
  with s1 s2 show ?thesis by blast
qed


theorem replace_password_salt_witness:
  "2 \<le> length default_hash \<and> length default_hash < SHADOW_ENCRYPTED_LENGTH
   \<and> default_hash ! 0 = CHR ''$''
   \<and> (\<exists>salt r.
      filter is_crypt (new_calls (shadow_world shadow_default)
          (snd (replace_password toy_crypt g_device (shadow_world shadow_default))))
        = [(Crypt, salt, r)]
      \<and> (\<exists>i < length default_hash. salt = take i default_hash \<and> default_hash ! i = CHR ''$''
               \<and> CHR ''$'' \<notin> set (drop (Suc i) default_hash)))"
proof -
  have d: "default_hash ! 0 = CHR ''$''" by (simp add: default_hash_def)
  from replace_password_salt [OF g_device_valid shadow_world_simps(1) shadow_world_simps(3)
      shadow_sizes(1) shadow_texts(1) shadow_first_entry(1) shadow_chars(1-3)
      default_hash_length(1,2), of toy_crypt] d default_hash_length
  show ?thesis by blast
qed


text \<open>
  C3 as stated fails for a hash value that begins with \<open>$\<close>: for the entry
  \<open>tng:!$6$abc$default-tng-password:\<close> the salt passed to \<open>crypt_r\<close> is \<open>$6$abc\<close>, without
  the last \<open>$\<close> of the hash value.
\<close>

theorem replace_password_salt_excludes_delimiter:
  "filter is_crypt (trace (snd (replace_password toy_crypt g_device (shadow_world shadow_default))))
     = [(Crypt, ''$6$abc'', Succeed)]
   \<and> default_hash = ''$6$abc$'' @ ''default-tng-password''"
proof -
  have "filter is_crypt (trace (snd (replace_password toy_crypt g_device (shadow_world shadow_default))))
     = [(Crypt, ''$6$abc'', Succeed)]"
    by (subst example_migration) (simp add: shadow_world_simps)
  then show ?thesis by (simp add: default_hash_def)
qed


text \<open>
  C4. The file has a first entry \<open>tng:!hash:\<close> and no call fails. If the hash value is the
  one-way hash of the default password under the extracted salt (and is shorter than the 512
  characters of the local array), \<open>replace_password\<close> first creates the backup file with
  the bytes of the original and syncs it, then writes the temp file and renames it onto the
  password file, whose bytes are then the original ones with \<open>!hash\<close> replaced by the
  record's \<open>encrypted_password\<close>. If the hash value is not that of the default password,
  no file is created, written or renamed and the file system is untouched.
\<close>

theorem replace_password_migrates:
  assumes valid: "eeprom_valid g" "\<not> data_version (header (eeprom g)) < 1"
    and calm: "script w = []"
    and shadow: "files w SHADOW_PATH = Some f" "length (i_data f) \<le> SHADOW_BUFFER_LENGTH"
    and entry: "i_data f = pre @ ''tng:!'' @ hash @ '':'' @ rest"
      "first_entry (i_data f) (length pre)"
      "NUL \<notin> set pre" "NUL \<notin> set hash" "CHR '':'' \<notin> set hash"
  shows "(has_default_password crypt_r hash \<and> length hash < SHADOW_ENCRYPTED_LENGTH \<longrightarrow>
      (\<exists>salt. replace_password crypt_r g w =
        (Return (),
         w\<lparr>files := (files w)
             (SHADOW_BACKUP_PATH \<mapsto> f\<lparr>i_perm := perm_bits (i_perm f)\<rparr>,
              SHADOW_TMP_PATH := None,
              SHADOW_PATH \<mapsto>
                \<lparr>i_perm = perm_bits (i_perm f), i_uid = i_uid f, i_gid = i_gid f,
                   i_data = pre @ ''tng:'' @ field_string (encrypted_password (data_v1 (eeprom g)))
                            @ '':'' @ rest\<rparr>),
           trace := trace w @
             [(Open, SHADOW_PATH, Succeed), (Fstat, SHADOW_PATH, Succeed), (Malloc, [], Succeed),
              (Read, SHADOW_PATH, Succeed), (Crypt, salt, Succeed),
              (Creat, SHADOW_BACKUP_PATH, Succeed), (Fchown, SHADOW_BACKUP_PATH, Succeed),
              (Fchmod, SHADOW_BACKUP_PATH, Succeed), (Write, SHADOW_BACKUP_PATH, Succeed),
              (Fsync, SHADOW_BACKUP_PATH, Succeed),
              (Creat, SHADOW_TMP_PATH, Succeed), (Fchown, SHADOW_TMP_PATH, Succeed),
              (Fchmod, SHADOW_TMP_PATH, Succeed), (Write, SHADOW_TMP_PATH, Succeed),
              (Write, SHADOW_TMP_PATH, Succeed), (Write, SHADOW_TMP_PATH, Succeed),
              (Fsync, SHADOW_TMP_PATH, Succeed), (Rename, SHADOW_TMP_PATH, Succeed)]\<rparr>)))
    \<and> (\<not> has_default_password crypt_r hash \<longrightarrow>
         files (snd (replace_password crypt_r g w)) = files w
         \<and> (\<forall>ev \<in> set (new_calls w (snd (replace_password crypt_r g w))).
               fst ev \<notin> {Creat, Write, Rename}))"
proof (intro conjI impI)
  assume a: "has_default_password crypt_r hash \<and> length hash < SHADOW_ENCRYPTED_LENGTH"
  then obtain salt c where salt: "get_salt hash = Return salt"
    and c: "crypt_r DEFAULT_PASSWORD salt = Inr c" "cstr c = hash"
    by (auto simp: has_default_password_def split: result.splits sum.splits)
  from a have len: "length hash < SHADOW_ENCRYPTED_LENGTH" by simp
  note r = replace_password_default [where crypt_r = crypt_r, OF valid calm shadow entry len salt c]
  show "\<exists>salt. replace_password crypt_r g w =
        (Return (),
         w\<lparr>files := (files w)
             (SHADOW_BACKUP_PATH \<mapsto> f\<lparr>i_perm := perm_bits (i_perm f)\<rparr>,
              SHADOW_TMP_PATH := None,
              SHADOW_PATH \<mapsto>
                \<lparr>i_perm = perm_bits (i_perm f), i_uid = i_uid f, i_gid = i_gid f,
                   i_data = pre @ ''tng:'' @ field_string (encrypted_password (data_v1 (eeprom g)))
                            @ '':'' @ rest\<rparr>),
           trace := trace w @
             [(Open, SHADOW_PATH, Succeed), (Fstat, SHADOW_PATH, Succeed), (Malloc, [], Succeed),
              (Read, SHADOW_PATH, Succeed), (Crypt, salt, Succeed),
              (Creat, SHADOW_BACKUP_PATH, Succeed), (Fchown, SHADOW_BACKUP_PATH, Succeed),
              (Fchmod, SHADOW_BACKUP_PATH, Succeed), (Write, SHADOW_BACKUP_PATH, Succeed),
              (Fsync, SHADOW_BACKUP_PATH, Succeed),
              (Creat, SHADOW_TMP_PATH, Succeed), (Fchown, SHADOW_TMP_PATH, Succeed),
              (Fchmod, SHADOW_TMP_PATH, Succeed), (Write, SHADOW_TMP_PATH, Succeed),
              (Write, SHADOW_TMP_PATH, Succeed), (Write, SHADOW_TMP_PATH, Succeed),
              (Fsync, SHADOW_TMP_PATH, Succeed), (Rename, SHADOW_TMP_PATH, Succeed)]\<rparr>)"
    by (rule exI [of _ salt]) (rule r)
next
  assume n: "\<not> has_default_password crypt_r hash"
  from replace_password_not_default [OF valid calm shadow entry n]
  obtain r evs where rp: "replace_password crypt_r g w =
           (r, w\<lparr>trace := trace w @ [(Open, SHADOW_PATH, Succeed), (Fstat, SHADOW_PATH, Succeed),
                                      (Malloc, [], Succeed), (Read, SHADOW_PATH, Succeed)] @ evs\<rparr>)"
    and evs: "\<forall>ev \<in> set evs. fst ev = Crypt"
    by blast
  from evs have "files (snd (replace_password crypt_r g w)) = files w
      \<and> (\<forall>ev \<in> set (new_calls w (snd (replace_password crypt_r g w))).
            fst ev \<notin> {Creat, Write, Rename})"
    unfolding rp by (auto simp: new_calls_def)
  then show "files (snd (replace_password crypt_r g w)) = files w"
    and "\<forall>ev \<in> set (new_calls w (snd (replace_password crypt_r g w))). fst ev \<notin> {Creat, Write, Rename}"
    by blast+
qed


theorem replace_password_migrates_witness:
  "has_default_password toy_crypt default_hash \<and> length default_hash < SHADOW_ENCRYPTED_LENGTH
   \<and> fst (replace_password toy_crypt g_device (shadow_world shadow_default)) = Return ()
   \<and> map_option i_data (files (snd (replace_password toy_crypt g_device (shadow_world shadow_default)))
         SHADOW_BACKUP_PATH) = Some shadow_default
   \<and> map_option i_data (files (snd (replace_password toy_crypt g_device (shadow_world shadow_default)))
         SHADOW_PATH) = Some (root_line @ ''tng:$6$xy$DEV:'' @ rest_line)
   \<and> \<not> has_default_password toy_crypt ''$6$abc$other''
   \<and> files (snd (replace_password toy_crypt g_device (shadow_world shadow_other)))
       = files (shadow_world shadow_other)"
proof -
  note d = replace_password_migrates [where crypt_r = toy_crypt,
      OF g_device_valid shadow_world_simps(1) shadow_world_simps(3)
      shadow_sizes(1) shadow_texts(1) shadow_first_entry(1) shadow_chars(1-3)]
  note o = replace_password_migrates [where crypt_r = toy_crypt,
      OF g_device_valid shadow_world_simps(1) shadow_world_simps(3)
      shadow_sizes(2) shadow_texts(2) shadow_first_entry(2) shadow_chars(1) shadow_chars(4,5)]
  from d example_default(1) default_hash_length(2) obtain salt where
    "replace_password toy_crypt g_device (shadow_world shadow_default) =
        (Return (),
         (shadow_world shadow_default)\<lparr>files := (files (shadow_world shadow_default))
             (SHADOW_BACKUP_PATH \<mapsto> (shadow_inode shadow_default)
                 \<lparr>i_perm := perm_bits (i_perm (shadow_inode shadow_default))\<rparr>,
              SHADOW_TMP_PATH := None,
              SHADOW_PATH \<mapsto>
                \<lparr>i_perm = perm_bits (i_perm (shadow_inode shadow_default)),
                   i_uid = i_uid (shadow_inode shadow_default), i_gid = i_gid (shadow_inode shadow_default),
                   i_data = root_line @ ''tng:'' @ field_string (encrypted_password (data_v1 (eeprom g_device)))
                            @ '':'' @ rest_line\<rparr>),
           trace := trace (shadow_world shadow_default) @
             [(Open, SHADOW_PATH, Succeed), (Fstat, SHADOW_PATH, Succeed), (Malloc, [], Succeed),
              (Read, SHADOW_PATH, Succeed), (Crypt, salt, Succeed),
              (Creat, SHADOW_BACKUP_PATH, Succeed), (Fchown, SHADOW_BACKUP_PATH, Succeed),
              (Fchmod, SHADOW_BACKUP_PATH, Succeed), (Write, SHADOW_BACKUP_PATH, Succeed),
              (Fsync, SHADOW_BACKUP_PATH, Succeed),
              (Creat, SHADOW_TMP_PATH, Succeed), (Fchown, SHADOW_TMP_PATH, Succeed),
              (Fchmod, SHADOW_TMP_PATH, Succeed), (Write, SHADOW_TMP_PATH, Succeed),
              (Write, SHADOW_TMP_PATH, Succeed), (Write, SHADOW_TMP_PATH, Succeed),
              (Fsync, SHADOW_TMP_PATH, Succeed), (Rename, SHADOW_TMP_PATH, Succeed)]\<rparr>)"
    by blast
  then have 1: "fst (replace_password toy_crypt g_device (shadow_world shadow_default)) = Return ()"
    and 2: "map_option i_data (files (snd (replace_password toy_crypt g_device (shadow_world shadow_default)))
         SHADOW_BACKUP_PATH) = Some shadow_default"
    and 3: "map_option i_data (files (snd (replace_password toy_crypt g_device (shadow_world shadow_default)))
         SHADOW_PATH) = Some (root_line @ ''tng:$6$xy$DEV:'' @ rest_line)"
    by (simp_all add: device_password_string shadow_inode_def)
  from o example_default(2)
  have 4: "files (snd (replace_password toy_crypt g_device (shadow_world shadow_other)))
       = files (shadow_world shadow_other)"
    by blast
  from 1 2 3 4 example_default default_hash_length(2) show ?thesis by blast
qed

text \<open>
  C9. When the account's entry is found and locked and both colons are there, but the hash
  value between the exclamation mark and the next colon has fewer than 2 characters,
  \<open>replace_password\<close> panics (``encrypted section for account tng is malformed'') and
  leaves the files alone. (The file could be read and no call failed.)
\<close>

theorem replace_password_short_hash_panics:
  assumes valid: "eeprom_valid g" "\<not> data_version (header (eeprom g)) < 1"
    and calm: "script w = []"
    and shadow: "files w SHADOW_PATH = Some f" "length (i_data f) \<le> SHADOW_BUFFER_LENGTH"
    and entry: "i_data f = pre @ ''tng:!'' @ hash @ '':'' @ rest"
      "first_entry (i_data f) (length pre)"
      "NUL \<notin> set pre" "NUL \<notin> set hash" "CHR '':'' \<notin> set hash"
    and short: "length hash < 2"
  shows "replace_password crypt_r g w =
    (Panic ''encrypted section for account tng is malformed'',
     w\<lparr>trace := trace w @ [(Open, SHADOW_PATH, Succeed), (Fstat, SHADOW_PATH, Succeed),
                            (Malloc, [], Succeed), (Read, SHADOW_PATH, Succeed)]\<rparr>)"
proof -
  from short have "\<not> length hash > SHADOW_ENCRYPTED_LENGTH" "length hash \<noteq> SHADOW_ENCRYPTED_LENGTH"
    by (simp_all add: SHADOW_ENCRYPTED_LENGTH_def)
  then show ?thesis
    unfolding replace_password_entry [OF valid calm shadow entry, of crypt_r] get_salt_short [OF short]
    by simp
qed

theorem replace_password_short_hash_panics_witness:
  "length ''x'' < (2::nat)
   \<and> replace_password toy_crypt g_device (shadow_world shadow_short) =
    (Panic ''encrypted section for account tng is malformed'',
     (shadow_world shadow_short)\<lparr>trace := trace (shadow_world shadow_short) @
        [(Open, SHADOW_PATH, Succeed), (Fstat, SHADOW_PATH, Succeed),
         (Malloc, [], Succeed), (Read, SHADOW_PATH, Succeed)]\<rparr>)"
proof -
  have s: "length ''x'' < (2::nat)" by simp
  from replace_password_short_hash_panics [where crypt_r = toy_crypt,
      OF g_device_valid shadow_world_simps(1) shadow_world_simps(3)
      shadow_sizes(3) shadow_texts(3) shadow_first_entry(3) shadow_chars(1) shadow_chars(6,7) s] s
  show ?thesis by blast
qed


section \<open>Properties of robust_mount\<close>

lemma mount_result_attempt_rc [simp]: "mount_result (attempt_rc rc) = Some rc"
  by (simp add: mount_result_def attempt_rc_def)

lemma mount_result_SomeD:
  assumes "mount_result a = Some rc"
  shows "new_context_ok a" "\<not> disable_helpers_rc a < 0" "\<not> set_fstype_rc a < 0"
    "\<not> set_source_rc a < 0" "\<not> set_target_rc a < 0" "\<not> set_mflags_rc a < 0" "mount_rc a = rc"
  using assms by (simp_all add: mount_result_def split: if_splits)

lemma retry_missing:
  assumes "mount_result (libmnt 0) = Some (- MNT_ERR_NOSOURCE)"
  shows "retry libmnt source target fstype retries tr
         = retry (\<lambda>n. libmnt (Suc n)) source target fstype (retries + 1)
             (tr @ missing_events source target fstype)"
  by (subst retry.simps)
     (simp add: mount_result_SomeD [OF assms] missing_events_def MNT_ERR_NOSOURCE_def Let_def)

lemma retry_missing_n:
  assumes "\<forall>k < n. mount_result (libmnt k) = Some (- MNT_ERR_NOSOURCE)"
  shows "retry libmnt source target fstype retries tr
         = retry (\<lambda>k. libmnt (n + k)) source target fstype (retries + of_nat n)
             (tr @ concat (replicate n (missing_events source target fstype)))"
  using assms
proof (induction n arbitrary: libmnt retries tr)
  case 0
  then show ?case by simp
next
  case (Suc n)
  from Suc.prems have 0: "mount_result (libmnt 0) = Some (- MNT_ERR_NOSOURCE)" by simp
  from Suc.prems have "\<forall>k < n. mount_result (libmnt (Suc k)) = Some (- MNT_ERR_NOSOURCE)" by simp
  from Suc.IH [of "\<lambda>k. libmnt (Suc k)", OF this]
  show ?case by (simp add: retry_missing [of libmnt, OF 0] ac_simps)
qed

lemma retry_success:
  assumes "mount_result (libmnt 0) = Some 0"
  shows "retry libmnt source target fstype retries tr
         = Some (Return (),
             tr @ [New_context, Mount_attempt 0, Free_context] @
             (if retries = 0 then []
              else [Log_success source fstype target (unat retries)
                      (if retries = 1 then ''retry'' else ''retries'')]))"
  by (subst retry.simps) (simp add: mount_result_SomeD [OF assms] Let_def word_greater_zero_iff)

lemma retry_other:
  assumes "mount_result (libmnt 0) = Some rc" and "rc \<noteq> 0" and "rc \<noteq> - MNT_ERR_NOSOURCE"
  shows "retry libmnt source target fstype retries tr
         = Some (Panic (''could not mount '' @ source @ '' ('' @ fstype @ '') at '' @ target),
                 tr @ [New_context, Mount_attempt rc])"
  by (subst retry.simps) (simp add: mount_result_SomeD [OF assms(1)] assms(2,3) Let_def)

text \<open>If the loop ends, some attempt was not one on a missing device.\<close>

lemma retry_never:
  assumes "retry libmnt source target fstype retries tr = Some y"
  shows "\<exists>k. mount_result (libmnt k) \<noteq> Some (- MNT_ERR_NOSOURCE)"
proof (rule retry.raw_induct [where P = "\<lambda>libmnt source target fstype retries tr y.
          \<exists>k. mount_result (libmnt k) \<noteq> Some (- MNT_ERR_NOSOURCE)", OF _ assms], goal_cases)
  case (1 retry' libmnt source target fstype retries tr y)
  show ?case
  proof (cases "mount_result (libmnt 0) = Some (- MNT_ERR_NOSOURCE)")
    case False
    then show ?thesis by blast
  next
    case True
    with 1(2) have "retry' (\<lambda>n. libmnt (Suc n)) source target fstype (retries + 1)
        ((tr @ [New_context]) @ [Mount_attempt (- MNT_ERR_NOSOURCE)]
           @ [Log_missing source fstype target, Free_context, Usleep (500 * 1000)]) = Some y"
      by (simp add: mount_result_SomeD [OF True] MNT_ERR_NOSOURCE_def Let_def)
    from 1(1) [OF this] show ?thesis by blast
  qed
qed

lemma robust_mount_None:
  assumes "\<forall>k. mount_result (libmnt k) = Some (- MNT_ERR_NOSOURCE)"
  shows "robust_mount libmnt source target fstype = None"
proof (cases "robust_mount libmnt source target fstype")
  case None
  then show ?thesis .
next
  case (Some y)
  from retry_never [OF Some [unfolded robust_mount_def]] assms show ?thesis by blast
qed

lemma unat_retries: "unat (word_of_nat N :: 32 word) = N mod 2 ^ 32"
  by (simp add: unat_of_nat)

lemma retries_eq_0: "(word_of_nat N :: 32 word) = 0 \<longleftrightarrow> N mod 2 ^ 32 = 0"
  using unat_retries [of N] by (simp add: word_unat_eq_iff)

lemma retries_eq_1: "(word_of_nat N :: 32 word) = 1 \<longleftrightarrow> N mod 2 ^ 32 = 1"
  using unat_retries [of N] by (simp add: word_unat_eq_iff)

lemma replicate_2: "replicate 2 x = [x, x]"
  by (simp add: numeral_2_eq_2)

subsection \<open>Claims about robust_mount\<close>

text \<open>
  C7. Let the first \<open>N\<close> attempts of \<open>robust_mount\<close> fail with \<open>-MNT_ERR_NOSOURCE\<close>, the
  device being missing. Each of them makes a new context, logs the failure, frees the
  context and sleeps 500000 microseconds, and is followed by another attempt, whatever
  \<open>N\<close> is. If attempt \<open>N\<close> succeeds, \<open>robust_mount\<close> returns after these \<open>N\<close> retries and,
  when the counter \<open>retries\<close> is not zero, logs it: the counter is a \<open>size_t\<close> of 32 bits
  and holds \<open>N mod 2 ^ 32\<close>, which is \<open>N\<close> for fewer than \<open>2 ^ 32\<close> retries. If attempt
  \<open>N\<close> fails with any other error, \<open>robust_mount\<close> panics at once: the failed attempt is
  the last event, with no sleep and no further attempt. If every attempt fails on a missing
  device, \<open>robust_mount\<close> never returns.
\<close>

theorem robust_mount_retries:
  "((\<forall>k < N. mount_result (libmnt k) = Some (- MNT_ERR_NOSOURCE)) \<longrightarrow>
      (mount_result (libmnt N) = Some 0 \<longrightarrow>
         robust_mount libmnt source target fstype
         = Some (Return (),
             [Log_mounting source fstype target]
             @ concat (replicate N (missing_events source target fstype))
             @ [New_context, Mount_attempt 0, Free_context]
             @ (if N mod 2 ^ 32 = 0 then []
                else [Log_success source fstype target (N mod 2 ^ 32)
                        (if N mod 2 ^ 32 = 1 then ''retry'' else ''retries'')])))
      \<and> (\<forall>rc. mount_result (libmnt N) = Some rc \<and> rc \<noteq> 0 \<and> rc \<noteq> - MNT_ERR_NOSOURCE \<longrightarrow>
         robust_mount libmnt source target fstype
         = Some (Panic (''could not mount '' @ source @ '' ('' @ fstype @ '') at '' @ target),
             [Log_mounting source fstype target]
             @ concat (replicate N (missing_events source target fstype))
             @ [New_context, Mount_attempt rc])))
   \<and> ((\<forall>k. mount_result (libmnt k) = Some (- MNT_ERR_NOSOURCE)) \<longrightarrow>
        robust_mount libmnt source target fstype = None)"
proof (intro conjI impI allI)
  assume m: "\<forall>k < N. mount_result (libmnt k) = Some (- MNT_ERR_NOSOURCE)"
    and s: "mount_result (libmnt N) = Some 0"
  from s have "mount_result (libmnt (N + 0)) = Some 0" by simp
  note retry_success [of "\<lambda>k. libmnt (N + k)", OF this]
  then show "robust_mount libmnt source target fstype
         = Some (Return (),
             [Log_mounting source fstype target]
             @ concat (replicate N (missing_events source target fstype))
             @ [New_context, Mount_attempt 0, Free_context]
             @ (if N mod 2 ^ 32 = 0 then []
                else [Log_success source fstype target (N mod 2 ^ 32)
                        (if N mod 2 ^ 32 = 1 then ''retry'' else ''retries'')]))"
    unfolding robust_mount_def retry_missing_n [OF m]
    by (simp add: unat_retries retries_eq_0 retries_eq_1)
next
  fix rc
  assume m: "\<forall>k < N. mount_result (libmnt k) = Some (- MNT_ERR_NOSOURCE)"
    and o: "mount_result (libmnt N) = Some rc \<and> rc \<noteq> 0 \<and> rc \<noteq> - MNT_ERR_NOSOURCE"
  from o have "mount_result (libmnt (N + 0)) = Some rc" by simp
  note retry_other [of "\<lambda>k. libmnt (N + k)", OF this]
  with o show "robust_mount libmnt source target fstype
         = Some (Panic (''could not mount '' @ source @ '' ('' @ fstype @ '') at '' @ target),
             [Log_mounting source fstype target]
             @ concat (replicate N (missing_events source target fstype))
             @ [New_context, Mount_attempt rc])"
    unfolding robust_mount_def retry_missing_n [OF m] by simp
next
  assume "\<forall>k. mount_result (libmnt k) = Some (- MNT_ERR_NOSOURCE)"
  then show "robust_mount libmnt source target fstype = None"
    by (rule robust_mount_None)
qed

theorem robust_mount_retries_witness:
  "mount_result (late_device 0) = Some (- MNT_ERR_NOSOURCE)
   \<and> mount_result (late_device 1) = Some (- MNT_ERR_NOSOURCE)
   \<and> mount_result (late_device 2) = Some 0
   \<and> robust_mount late_device ''/dev/mmcblk0p2'' ''/mnt'' ''ext4''
       = Some (Return (),
           [Log_mounting ''/dev/mmcblk0p2'' ''ext4'' ''/mnt'',
            New_context, Mount_attempt (- 5002), Log_missing ''/dev/mmcblk0p2'' ''ext4'' ''/mnt'',
            Free_context, Usleep 500000,
            New_context, Mount_attempt (- 5002), Log_missing ''/dev/mmcblk0p2'' ''ext4'' ''/mnt'',
            Free_context, Usleep 500000,
            New_context, Mount_attempt 0, Free_context,
            Log_success ''/dev/mmcblk0p2'' ''ext4'' ''/mnt'' 2 ''retries''])
   \<and> mount_result (bad_device 0) = Some (- 22)
   \<and> robust_mount bad_device ''/dev/mmcblk0p2'' ''/mnt'' ''ext4''
       = Some (Panic ''could not mount /dev/mmcblk0p2 (ext4) at /mnt'',
           [Log_mounting ''/dev/mmcblk0p2'' ''ext4'' ''/mnt'', New_context, Mount_attempt (- 22)])
   \<and> (\<forall>k. mount_result (no_device k) = Some (- MNT_ERR_NOSOURCE))
   \<and> robust_mount no_device ''/dev/mmcblk0p2'' ''/mnt'' ''ext4'' = None"
proof -
  have l: "\<forall>k < 2. mount_result (late_device k) = Some (- MNT_ERR_NOSOURCE)"
    "mount_result (late_device 2) = Some 0"
    by (simp_all add: late_device_def)
  have b: "\<forall>k < 0. mount_result (bad_device k) = Some (- MNT_ERR_NOSOURCE)"
    "mount_result (bad_device 0) = Some (- 22)"
    by (simp_all add: bad_device_def)
  have n: "\<forall>k. mount_result (no_device k) = Some (- MNT_ERR_NOSOURCE)"
    by (simp add: no_device_def)
  from robust_mount_retries [of 2 late_device "''/dev/mmcblk0p2''" "''/mnt''" "''ext4''"] l
  have 1: "robust_mount late_device ''/dev/mmcblk0p2'' ''/mnt'' ''ext4''
       = Some (Return (),
           [Log_mounting ''/dev/mmcblk0p2'' ''ext4'' ''/mnt'',
            New_context, Mount_attempt (- 5002), Log_missing ''/dev/mmcblk0p2'' ''ext4'' ''/mnt'',
            Free_context, Usleep 500000,
            New_context, Mount_attempt (- 5002), Log_missing ''/dev/mmcblk0p2'' ''ext4'' ''/mnt'',
            Free_context, Usleep 500000,
            New_context, Mount_attempt 0, Free_context,
            Log_success ''/dev/mmcblk0p2'' ''ext4'' ''/mnt'' 2 ''retries''])"
    by (simp add: missing_events_def MNT_ERR_NOSOURCE_def replicate_2)
  from robust_mount_retries [of 0 bad_device "''/dev/mmcblk0p2''" "''/mnt''" "''ext4''"] b
  have 2: "robust_mount bad_device ''/dev/mmcblk0p2'' ''/mnt'' ''ext4''
       = Some (Panic ''could not mount /dev/mmcblk0p2 (ext4) at /mnt'',
           [Log_mounting ''/dev/mmcblk0p2'' ''ext4'' ''/mnt'', New_context, Mount_attempt (- 22)])"
    by (simp add: MNT_ERR_NOSOURCE_def)
  from robust_mount_retries [of 0 no_device "''/dev/mmcblk0p2''" "''/mnt''" "''ext4''"] n
  have 3: "robust_mount no_device ''/dev/mmcblk0p2'' ''/mnt'' ''ext4'' = None"
    by simp
  have l': "mount_result (late_device 0) = Some (- MNT_ERR_NOSOURCE)"
    "mount_result (late_device 1) = Some (- MNT_ERR_NOSOURCE)"
    by (simp_all add: late_device_def)
  from l l' b n 1 2 3 show ?thesis by blast
qed

section \<open>Properties of read_cmdline\<close>

declare parse_options.simps [simp del] tokens.simps [simp del]

lemma parse_options_tokens: "parse_options s r = foldl (\<lambda>r t. handle_option t r) r (tokens s)"
proof (induction s r rule: parse_options.induct)
  case (1 s r)
  show ?case
  proof (cases "strtok s")
    case None
    then show ?thesis by (simp add: parse_options.simps [of s] tokens.simps [of s])
  next
    case (Some p)
    obtain t rest where p: "p = (t, rest)" by (cases p)
    from 1 [OF Some p [symmetric]] Some p show ?thesis
      by (simp add: parse_options.simps [of s] tokens.simps [of s])
  qed
qed

lemma rootfstype_take_5: "take 11 t = ''rootfstype='' \<Longrightarrow> take 5 t = ''rootf''"
proof -
  assume "take 11 t = ''rootfstype=''"
  then have "take 5 (take 11 t) = take 5 ''rootfstype=''" by (rule arg_cong)
  then show ?thesis by simp
qed

lemma root_foldl:
  "root (foldl (\<lambda>r t. handle_option t r) r ts)
   = (if \<forall>t \<in> set ts. take 5 t \<noteq> ''root='' then root r
      else Some (drop 5 (last (filter (\<lambda>t. take 5 t = ''root='') ts))))"
  by (induction ts rule: rev_induct) (auto simp: handle_option_def)

lemma rootfstype_foldl:
  "rootfstype (foldl (\<lambda>r t. handle_option t r) r ts)
   = (if \<forall>t \<in> set ts. take 11 t \<noteq> ''rootfstype='' then rootfstype r
      else Some (drop 11 (last (filter (\<lambda>t. take 11 t = ''rootfstype='') ts))))"
  by (induction ts rule: rev_induct) (auto simp: handle_option_def dest: rootfstype_take_5)

lemma init_foldl:
  "init (foldl (\<lambda>r t. handle_option t r) r ts)
   = (if \<forall>t \<in> set ts. take 5 t \<noteq> ''init='' then init r
      else Some (drop 5 (last (filter (\<lambda>t. take 5 t = ''init='') ts))))"
  by (induction ts rule: rev_induct) (auto simp: handle_option_def dest: rootfstype_take_5)

lemma filter_last_occurrence:
  assumes "P t" and "\<forall>x \<in> set after. \<not> P x"
  shows "last (filter P (before @ [t] @ after)) = t"
proof -
  from assms(2) have "filter P after = []" by (simp add: filter_empty_conv)
  with assms(1) show ?thesis by simp
qed

lemma read_cmdline_tokens:
  "read_cmdline (Inr ()) (Inr line)
   = Return (foldl (\<lambda>r t. handle_option t r) \<lparr>root = None, rootfstype = None, init = None\<rparr>
               (tokens (cstr (take 2047 line))))"
  by (simp add: read_cmdline_def parse_options_tokens)

lemma example_tokens:
  "tokens (cstr (take 2047 example_cmdline))
   = [''console=tty1'', ''root=/dev/mmcblk0p2'', ''rootfstype=ext4'', ''root=/dev/sda1'',
      ''init=/sbin/init'']"
  by (simp add: example_cmdline_def cstr_def NUL_def tokens.simps strtok_def is_delimiter_def)

subsection \<open>Claims about read_cmdline\<close>

text \<open>
  C10. When \<open>open\<close> and \<open>read\<close> succeed, \<open>read_cmdline\<close> returns, and for each of the keys
  \<open>root=\<close>, \<open>rootfstype=\<close> and \<open>init=\<close>: if a token of the command line is the key followed
  by \<open>v\<close>, and no token after it starts with the key, then the value returned for the key is
  \<open>v\<close>, whatever tokens come before it, earlier tokens with the same key among them.
\<close>

theorem read_cmdline_last_occurrence:
  "\<exists>c. read_cmdline (Inr ()) (Inr line) = Return c
     \<and> (\<forall>before v after.
           tokens (cstr (take 2047 line)) = before @ [''root='' @ v] @ after
           \<and> (\<forall>t \<in> set after. take 5 t \<noteq> ''root='') \<longrightarrow> root c = Some v)
     \<and> (\<forall>before v after.
           tokens (cstr (take 2047 line)) = before @ [''rootfstype='' @ v] @ after
           \<and> (\<forall>t \<in> set after. take 11 t \<noteq> ''rootfstype='') \<longrightarrow> rootfstype c = Some v)
     \<and> (\<forall>before v after.
           tokens (cstr (take 2047 line)) = before @ [''init='' @ v] @ after
           \<and> (\<forall>t \<in> set after. take 5 t \<noteq> ''init='') \<longrightarrow> init c = Some v)"
proof (intro exI conjI allI impI)
  show "read_cmdline (Inr ()) (Inr line)
    = Return (foldl (\<lambda>r t. handle_option t r) \<lparr>root = None, rootfstype = None, init = None\<rparr>
               (tokens (cstr (take 2047 line))))"
    by (rule read_cmdline_tokens)
next
  fix before v after
  assume a: "tokens (cstr (take 2047 line)) = before @ [''root='' @ v] @ after
           \<and> (\<forall>t \<in> set after. take 5 t \<noteq> ''root='')"
  then have l: "last (filter (\<lambda>t. take 5 t = ''root='') (before @ [''root='' @ v] @ after)) = ''root='' @ v"
    by (intro filter_last_occurrence) simp_all
  from a have m: "\<not> (\<forall>t \<in> set (tokens (cstr (take 2047 line))). take 5 t \<noteq> ''root='')"
    by simp
  from a l have "drop 5 (last (filter (\<lambda>t. take 5 t = ''root='') (tokens (cstr (take 2047 line))))) = v"
    by simp
  with m show "root (foldl (\<lambda>r t. handle_option t r) \<lparr>root = None, rootfstype = None, init = None\<rparr>
               (tokens (cstr (take 2047 line)))) = Some v"
    unfolding root_foldl by simp
next
  fix before v after
  assume a: "tokens (cstr (take 2047 line)) = before @ [''rootfstype='' @ v] @ after
           \<and> (\<forall>t \<in> set after. take 11 t \<noteq> ''rootfstype='')"
  then have l: "last (filter (\<lambda>t. take 11 t = ''rootfstype='') (before @ [''rootfstype='' @ v] @ after)) = ''rootfstype='' @ v"
    by (intro filter_last_occurrence) simp_all
  from a have m: "\<not> (\<forall>t \<in> set (tokens (cstr (take 2047 line))). take 11 t \<noteq> ''rootfstype='')"
    by simp
  from a l have "drop 11 (last (filter (\<lambda>t. take 11 t = ''rootfstype='') (tokens (cstr (take 2047 line))))) = v"
    by simp
  with m show "rootfstype (foldl (\<lambda>r t. handle_option t r) \<lparr>root = None, rootfstype = None, init = None\<rparr>
               (tokens (cstr (take 2047 line)))) = Some v"
    unfolding rootfstype_foldl by simp
next
  fix before v after
  assume a: "tokens (cstr (take 2047 line)) = before @ [''init='' @ v] @ after
           \<and> (\<forall>t \<in> set after. take 5 t \<noteq> ''init='')"
  then have l: "last (filter (\<lambda>t. take 5 t = ''init='') (before @ [''init='' @ v] @ after)) = ''init='' @ v"
    by (intro filter_last_occurrence) simp_all
  from a have m: "\<not> (\<forall>t \<in> set (tokens (cstr (take 2047 line))). take 5 t \<noteq> ''init='')"
    by simp
  from a l have "drop 5 (last (filter (\<lambda>t. take 5 t = ''init='') (tokens (cstr (take 2047 line))))) = v"
    by simp
  with m show "init (foldl (\<lambda>r t. handle_option t r) \<lparr>root = None, rootfstype = None, init = None\<rparr>
               (tokens (cstr (take 2047 line)))) = Some v"
    unfolding init_foldl by simp
qed

theorem read_cmdline_last_occurrence_witness:
  "tokens (cstr (take 2047 example_cmdline))
     = [''console=tty1'', ''root=/dev/mmcblk0p2'', ''rootfstype=ext4''] @ [''root='' @ ''/dev/sda1'']
       @ [''init=/sbin/init'']
   \<and> take 5 ''init=/sbin/init'' \<noteq> ''root=''
   \<and> (\<exists>c. read_cmdline (Inr ()) (Inr example_cmdline) = Return c \<and> root c = Some ''/dev/sda1'')"
proof -
  have t: "tokens (cstr (take 2047 example_cmdline))
     = [''console=tty1'', ''root=/dev/mmcblk0p2'', ''rootfstype=ext4''] @ [''root='' @ ''/dev/sda1'']
       @ [''init=/sbin/init'']"
    by (simp add: example_tokens)
  have n: "\<forall>t \<in> set [''init=/sbin/init'']. take 5 t \<noteq> ''root=''" by simp
  from read_cmdline_last_occurrence [of example_cmdline] obtain c where
    c: "read_cmdline (Inr ()) (Inr example_cmdline) = Return c"
    and r: "\<forall>before v after.
           tokens (cstr (take 2047 example_cmdline)) = before @ [''root='' @ v] @ after
           \<and> (\<forall>t \<in> set after. take 5 t \<noteq> ''root='') \<longrightarrow> root c = Some v"
    by blast
  from r t n have "root c = Some ''/dev/sda1''" by blast
  with c t show ?thesis by simp
qed

end
